theory Spec2Isabelle
  imports Main
begin

section \<open>The repository model of gitin (git/repository.go)\<close>

text \<open>
  The package reads a Git repository through the git2go binding of libgit2 and keeps
  branches, commits and diffs as plain values. The binding is not part of the package:
  every object it hands out is modelled by the answers it gives to the calls that
  repository.go makes on it, so that each call of the source is a field selection here
  and each \<open>(value, error)\<close> pair of Go is a sum \<open>error + value\<close>.
\<close>

subsection \<open>Results\<close>

text \<open>
  A Go function of this package either returns its value, returns an error, or panics
  (a nil pointer is dereferenced, a slice bound is out of range).
\<close>

datatype error = GitError string

datatype 'a outcome = Ok 'a | Err error | Panic

subsection \<open>Objects of the binding\<close>

text \<open>
  An \<open>Oid\<close> is identified with the hexadecimal text that \<open>Oid.String()\<close> renders.
\<close>

datatype oid = Oid (oid_String: string)

record lib_signature =
  sig_Name :: string
  sig_Email :: string
  sig_When :: int

record lib_file =
  lf_Path :: string
  lf_Oid :: oid

text \<open>A tree is known by the files it holds; \<open>DiffDelta\<close> of the binding is \<open>lib_delta\<close>.\<close>

datatype lib_tree = LibTree (tree_files: "lib_file list")

record lib_delta =
  ld_Status :: int
  ld_OldFile :: lib_file
  ld_NewFile :: lib_file

text \<open>
  A patch object answers \<open>String()\<close> and \<open>Free()\<close>; \<open>p_Free\<close> is the error that
  \<open>Free()\<close> returns, if any.
\<close>

record lib_patch =
  p_String :: "error + string"
  p_Free :: "error option"

text \<open>
  A diff object answers \<open>Stats()\<close> followed by \<open>stats.String(DiffStatsFull, 80)\<close>
  (the inner sum), \<open>NumDeltas()\<close>, \<open>Patch(i)\<close> and \<open>GetDelta(i)\<close>.
\<close>

record lib_diff =
  d_Stats :: "error + (error + string)"
  d_NumDeltas :: "error + int"
  d_Patch :: "nat \<Rightarrow> error + lib_patch"
  d_GetDelta :: "nat \<Rightarrow> error + lib_delta"

text \<open>
  A commit object answers \<open>AsObject().Id()\<close>, \<open>Author()\<close>, \<open>Summary()\<close>,
  \<open>Message()\<close>, \<open>Tree()\<close>, \<open>ParentCount()\<close> (the length of \<open>lc_Parents\<close>) and
  \<open>Parent(n)\<close>, which is nil (\<open>None\<close>) when the parent cannot be looked up.
\<close>

datatype lib_commit = LibCommit
  (lc_Id: oid)
  (lc_Author: lib_signature)
  (lc_Summary: string)
  (lc_Message: string)
  (lc_Tree: "error + lib_tree")
  (lc_Parents: "lib_commit option list")

text \<open>A reference answers \<open>Name()\<close> and \<open>Target()\<close>, which is nil for a symbolic one.\<close>

record lib_reference =
  ref_Name :: string
  ref_Target :: "oid option"

text \<open>
  A branch answers \<open>Name()\<close>, \<open>Reference.Name()\<close>, \<open>Target()\<close>, \<open>Resolve()\<close>,
  \<open>IsRemote()\<close> and \<open>Upstream()\<close>, which may return an error or a nil reference.
\<close>

record lib_branch =
  br_Name :: "error + string"
  br_RefName :: string
  br_Target :: "oid option"
  br_Resolve :: "error + lib_reference"
  br_IsRemote :: bool
  br_Upstream :: "error + lib_reference option"

text \<open>
  The repository handle answers the calls made on \<open>r.repo\<close> and the package-level
  functions of the binding. \<open>NewBranchIterator\<close> gives the branches that
  \<open>ForEach\<close> visits, in order, with the error that the iterator itself ends on.
  \<open>Head\<close> gives the target of the reference that \<open>Head()\<close> returns, \<open>Walk\<close>
  the error of creating a walker, \<open>walk_Push\<close> the error of pushing an id on it.
  \<open>walk_Iterate\<close> gives the commits that the walker hands to its callback after
  the given ids were pushed.
\<close>

record lib_repository =
  NewOid :: "string \<Rightarrow> error + oid"
  NewBranchIterator :: "error + (lib_branch list \<times> error option)"
  Head :: "error + oid"
  Walk :: "error option"
  walk_Push :: "oid \<Rightarrow> error option"
  walk_Iterate :: "oid list \<Rightarrow> lib_commit list"
  LookupCommit :: "oid \<Rightarrow> error + lib_commit"
  DefaultDiffOptions :: "error option"
  DiffTreeToTree :: "lib_tree option \<Rightarrow> lib_tree \<Rightarrow> error + lib_diff"

subsection \<open>Data model\<close>

record Contributor =
  Name :: string
  Email :: string
  When :: int

text \<open>\<open>CommitType\<close> is a string type; its three constants follow.\<close>

type_synonym CommitType = string

definition LocalCommit :: CommitType where
  "LocalCommit = ''local''"

definition EvenCommit :: CommitType where
  "EvenCommit = ''even''"

definition RemoteCommit :: CommitType where
  "RemoteCommit = ''remote''"

text \<open>Pointer fields are options: \<open>None\<close> is nil.\<close>

record Commit =
  commit :: "lib_commit option"
  Hash :: string
  Author :: "Contributor option"
  Message :: string
  Summary :: string
  Type :: CommitType

datatype Branch = Branch
  (Name: string)
  (FullName: string)
  (Hash: string)
  (Upstream: "Branch option")
  (Ahead: "Commit list")
  (Behind: "Commit list")
  (Clean: bool)
  (isRemote: bool)

record Remote =
  Name :: string
  URL :: "string list"

record Repository =
  RepoID :: string
  Name :: string
  AbsPath :: string
  repo :: lib_repository
  Branches :: "Branch list"
  Commits :: "Commit list"
  Remotes :: "Remote list"

record DiffFile =
  Path :: string
  Hash :: string

record DiffDelta =
  Status :: int
  OldFile :: "DiffFile option"
  NewFile :: "DiffFile option"
  Patch :: string

record Diff =
  deltas :: "DiffDelta list"
  stats :: "string list"
  patchs :: "string list"

subsection \<open>Library functions of Go used by the package\<close>

text \<open>
  \<open>strings.Split(s, sep)\<close> for a one-byte separator: the pieces between the
  separators, so one piece more than there are separators, and \<open>[""]\<close> for the
  empty string.
\<close>

fun Split :: "string \<Rightarrow> char \<Rightarrow> string list" where
  "Split [] sep = [[]]"
| "Split (x # xs) sep =
     (if x = sep then [] # Split xs sep
      else (case Split xs sep of
              [] \<Rightarrow> [[x]]
            | w # ws \<Rightarrow> (x # w) # ws))"

text \<open>\<open>strconv.Itoa\<close>: the decimal text of an integer.\<close>

fun nat_digits :: "nat \<Rightarrow> string" where
  "nat_digits n =
     (if n < 10 then [''0123456789'' ! n]
      else nat_digits (n div 10) @ [''0123456789'' ! (n mod 10)])"

declare nat_digits.simps [simp del]

definition Itoa :: "int \<Rightarrow> string" where
  "Itoa i = (if i < 0 then CHR ''-'' # nat_digits (nat (- i)) else nat_digits (nat i))"

subsection \<open>loadBranches\<close>

text \<open>
  The callback that \<open>loadBranches\<close> passes to \<open>ForEach\<close> (lines 109 to 154), applied
  to one branch and the branches collected so far. \<open>Err\<close> is the error the callback
  returns; \<open>rawOid.String()\<close> and \<open>us.Target().String()\<close> panic on a nil target.
  The warning that is logged for a missing upstream is not part of the state.
\<close>

definition loadBranches_callback :: "lib_branch \<Rightarrow> Branch list \<Rightarrow> Branch list outcome" where
  "loadBranches_callback branch bs =
     (case br_Name branch of
        Inl err \<Rightarrow> Err err
      | Inr name \<Rightarrow>
          (let fullname = br_RefName branch in
           (case (case br_Target branch of
                    Some t \<Rightarrow> Ok (Some t)
                  | None \<Rightarrow>
                      (case br_Resolve branch of
                         Inl err \<Rightarrow> Err err
                       | Inr ref \<Rightarrow> Ok (ref_Target ref))) of
              Err err \<Rightarrow> Err err
            | Panic \<Rightarrow> Panic
            | Ok None \<Rightarrow> Panic
            | Ok (Some rawOid) \<Rightarrow>
                (let hash = oid_String rawOid;
                     isRemote = br_IsRemote branch
                 in (case (if \<not> isRemote then
                             (case br_Upstream branch of
                                Inl err \<Rightarrow> Ok None
                              | Inr None \<Rightarrow> Ok None
                              | Inr (Some us) \<Rightarrow>
                                  (case ref_Target us of
                                     None \<Rightarrow> Panic
                                   | Some t \<Rightarrow>
                                       Ok (Some (Branch [] (ref_Name us) (oid_String t) None
                                                   [] [] False True))))
                           else Ok None) of
                       Err err \<Rightarrow> Err err
                     | Panic \<Rightarrow> Panic
                     | Ok upstream \<Rightarrow>
                         Ok (bs @ [Branch name fullname hash upstream [] [] False isRemote]))))))"

text \<open>
  \<open>BranchIterator.ForEach\<close>: the callback runs on each branch in turn until it returns
  an error, which \<open>ForEach\<close> returns; otherwise \<open>ForEach\<close> returns what the iterator
  ended on. The first component is \<open>bs\<close> as the callback left it.
\<close>

fun ForEach :: "lib_branch list \<Rightarrow> error option \<Rightarrow> Branch list
    \<Rightarrow> (Branch list \<times> error option) outcome" where
  "ForEach [] end_err bs = Ok (bs, end_err)"
| "ForEach (branch # rest) end_err bs =
     (case loadBranches_callback branch bs of
        Err err \<Rightarrow> Ok (bs, Some err)
      | Panic \<Rightarrow> Panic
      | Ok bs' \<Rightarrow> ForEach rest end_err bs')"

text \<open>
  \<open>loadBranches\<close> (lines 101 to 157) returns the repository as it leaves it together
  with its error result.
\<close>

definition loadBranches :: "Repository \<Rightarrow> (Repository \<times> error option) outcome" where
  "loadBranches r =
     (case NewBranchIterator (repo r) of
        Inl err \<Rightarrow> Ok (r, Some err)
      | Inr (branches, end_err) \<Rightarrow>
          (case ForEach branches end_err [] of
             Ok (bs, err) \<Rightarrow> Ok (r\<lparr>Branches := bs\<rparr>, err)
           | Err err \<Rightarrow> Err err
           | Panic \<Rightarrow> Panic))"

subsection \<open>loadCommits\<close>

text \<open>
  The loop of lines 171 to 176: \<open>currentbranch\<close> is overwritten by every branch whose
  hash is that of HEAD, so the last such branch remains.
\<close>

fun find_currentbranch :: "string \<Rightarrow> Branch list \<Rightarrow> Branch option \<Rightarrow> Branch option" where
  "find_currentbranch head_hash [] currentbranch = currentbranch"
| "find_currentbranch head_hash (b # bs) currentbranch =
     find_currentbranch head_hash bs
       (if head_hash = Branch.Hash b then Some b else currentbranch)"

text \<open>The callback of \<open>walk.Iterate\<close> (lines 193 to 213) builds one \<open>Commit\<close>.\<close>

definition loadCommits_callback :: "lib_commit \<Rightarrow> Commit" where
  "loadCommits_callback c =
     \<lparr>commit = Some c,
      Commit.Hash = oid_String (lc_Id c),
      Author = Some \<lparr>Contributor.Name = sig_Name (lc_Author c),
                     Email = sig_Email (lc_Author c),
                     When = sig_When (lc_Author c)\<rparr>,
      Message = lc_Message c,
      Summary = lc_Summary c,
      Type = []\<rparr>"

text \<open>
  Lines 171 to 189: the id pushed on the walker, an error, or the panic of
  \<open>currentbranch.Upstream.Hash\<close> when \<open>Upstream\<close> is nil.
\<close>

definition walk_start :: "lib_repository \<Rightarrow> oid \<Rightarrow> Branch list \<Rightarrow> oid outcome" where
  "walk_start lib head_target branches =
     (case find_currentbranch (oid_String head_target) branches None of
        Some currentbranch \<Rightarrow>
          (case Upstream currentbranch of
             None \<Rightarrow> Panic
           | Some upstream \<Rightarrow>
               (case NewOid lib (Branch.Hash upstream) of
                  Inl err \<Rightarrow> Err err
                | Inr oid \<Rightarrow>
                    (case walk_Push lib oid of
                       Some err \<Rightarrow> Err err
                     | None \<Rightarrow> Ok oid)))
      | None \<Rightarrow>
          (case walk_Push lib head_target of
             Some err \<Rightarrow> Err err
           | None \<Rightarrow> Ok head_target))"

text \<open>
  \<open>loadCommits\<close> (lines 159 to 216): \<open>Err\<close> is the error it returns; \<open>Ok\<close> is the
  repository it leaves when it returns nil.
\<close>

definition loadCommits :: "Repository \<Rightarrow> Repository outcome" where
  "loadCommits r =
     (case Head (repo r) of
        Inl err \<Rightarrow> Err err
      | Inr head_target \<Rightarrow>
          (case Walk (repo r) of
             Some err \<Rightarrow> Err err
           | None \<Rightarrow>
               (case walk_start (repo r) head_target (Branches r) of
                  Err err \<Rightarrow> Err err
                | Panic \<Rightarrow> Panic
                | Ok start \<Rightarrow>
                    Ok (r\<lparr>Commits := map loadCommits_callback
                                         (walk_Iterate (repo r) [start])\<rparr>))))"

subsection \<open>Diff\<close>

text \<open>
  The handles that \<open>Diff\<close> obtains from the store and may free: the tree of the
  commit, the tree of its first parent, the diff object, and the patch object of
  delta \<open>i\<close>. A run of \<open>Diff\<close> leaves a trace of what it obtained and what it freed.
\<close>

datatype handle = cTree_handle | pTree_handle | diff_handle | patch_handle nat

datatype event = Acquire handle | Release handle

text \<open>
  The loop of lines 283 to 314. \<open>n\<close> is the count that \<open>NumDeltas()\<close> gave (the variable \<open>deltas\<close>
  of the source), \<open>ddeltas\<close> and \<open>ptexts\<close> are the two slices appended to (the
  variables \<open>ddeltas\<close> and \<open>patchs\<close>), \<open>tr\<close> is the trace so
  far. The three \<open>continue\<close> statements go to the next index; the second and the third
  are reached with the patch object in hand. A failing \<open>patch.Free()\<close> returns its
  error from \<open>Diff\<close>.
\<close>

function Diff_loop :: "lib_diff \<Rightarrow> int \<Rightarrow> nat \<Rightarrow> DiffDelta list \<Rightarrow> string list \<Rightarrow> event list
    \<Rightarrow> (DiffDelta list \<times> string list) outcome \<times> event list" where
  "Diff_loop diff n i ddeltas ptexts tr =
     (if int i < n then
        (case d_Patch diff i of
           Inl err \<Rightarrow> Diff_loop diff n (Suc i) ddeltas ptexts tr
         | Inr patch \<Rightarrow>
             (case d_GetDelta diff i of
                Inl err \<Rightarrow>
                  Diff_loop diff n (Suc i) ddeltas ptexts (tr @ [Acquire (patch_handle i)])
              | Inr dd \<Rightarrow>
                  (case p_String patch of
                     Inl err \<Rightarrow>
                       Diff_loop diff n (Suc i) ddeltas ptexts
                         (tr @ [Acquire (patch_handle i)])
                   | Inr patchtext \<Rightarrow>
                       (let d = \<lparr>Status = ld_Status dd,
                                 OldFile = Some \<lparr>Path = lf_Path (ld_OldFile dd),
                                                 DiffFile.Hash = oid_String (lf_Oid (ld_OldFile dd))\<rparr>,
                                 NewFile = Some \<lparr>Path = lf_Path (ld_NewFile dd),
                                                 DiffFile.Hash = oid_String (lf_Oid (ld_NewFile dd))\<rparr>,
                                 Patch = patchtext\<rparr>
                        in (case p_Free patch of
                              Some err \<Rightarrow> (Err err, tr @ [Acquire (patch_handle i)])
                            | None \<Rightarrow>
                                Diff_loop diff n (Suc i) (ddeltas @ [d])
                                  (ptexts @ [patchtext])
                                  (tr @ [Acquire (patch_handle i), Release (patch_handle i)]))))))
      else (Ok (ddeltas, ptexts), tr))"
  by pat_completeness auto
termination
  by (relation "measure (\<lambda>(diff, n, i, ddeltas, ptexts, tr). nat n - i)") auto

declare Diff_loop.simps [simp del]

text \<open>
  Lines 245 to 251: the parent tree is nil for a commit without parents, and otherwise
  the tree of \<open>Parent(0)\<close>; \<open>Tree()\<close> on a nil parent panics.
\<close>

definition parent_Tree :: "lib_commit \<Rightarrow> lib_tree option outcome" where
  "parent_Tree c =
     (if length (lc_Parents c) > 0 then
        (case lc_Parents c ! 0 of
           None \<Rightarrow> Panic
         | Some parent \<Rightarrow>
             (case lc_Tree parent of
                Inl err \<Rightarrow> Err err
              | Inr pTree \<Rightarrow> Ok (Some pTree)))
      else Ok None)"

text \<open>
  The body of \<open>Diff\<close> (lines 234 to 322) up to its return: the result, the trace, and
  the handles whose \<open>Free\<close> was deferred, the last deferred first.
\<close>

definition Diff_body :: "Repository \<Rightarrow> Commit \<Rightarrow> Diff outcome \<times> event list \<times> handle list" where
  "Diff_body r c =
     (case commit c of
        None \<Rightarrow> (Panic, [], [])
      | Some cc \<Rightarrow>
     (case lc_Tree cc of
        Inl err \<Rightarrow> (Err err, [], [])
      | Inr cTree \<Rightarrow>
     (case parent_Tree cc of
        Panic \<Rightarrow> (Panic, [Acquire cTree_handle], [cTree_handle])
      | Err err \<Rightarrow> (Err err, [Acquire cTree_handle], [cTree_handle])
      | Ok pTree \<Rightarrow>
     (let tr1 = Acquire cTree_handle # (if pTree = None then [] else [Acquire pTree_handle]);
          df1 = (if pTree = None then [] else [pTree_handle]) @ [cTree_handle]
      in
     (case DefaultDiffOptions (repo r) of
        Some err \<Rightarrow> (Err err, tr1, df1)
      | None \<Rightarrow>
     (case DiffTreeToTree (repo r) pTree cTree of
        Inl err \<Rightarrow> (Err err, tr1, df1)
      | Inr diff \<Rightarrow>
     (let tr2 = tr1 @ [Acquire diff_handle];
          df2 = diff_handle # df1
      in
     (case d_Stats diff of
        Inl err \<Rightarrow> (Err err, tr2, df2)
      | Inr (Inl err) \<Rightarrow> (Err err, tr2, df2)
      | Inr (Inr statsText) \<Rightarrow>
     (case d_NumDeltas diff of
        Inl err \<Rightarrow> (Err err, tr2, df2)
      | Inr n \<Rightarrow>
     (case Diff_loop diff n 0 [] [] tr2 of
        (Panic, tr3) \<Rightarrow> (Panic, tr3, df2)
      | (Err err, tr3) \<Rightarrow> (Err err, tr3, df2)
      | (Ok (ddeltas, ptexts), tr3) \<Rightarrow>
          (Ok \<lparr>deltas = ddeltas, stats = Split statsText CHR 0x0A, patchs = ptexts\<rparr>,
           tr3, df2)))))))))))"

text \<open>\<open>Diff\<close>: on return the deferred \<open>Free\<close> calls run, the last deferred first.\<close>

definition Diff :: "Repository \<Rightarrow> Commit \<Rightarrow> Diff outcome \<times> event list" where
  "Diff r c = (case Diff_body r c of (res, tr, deferred) \<Rightarrow> (res, tr @ map Release deferred))"

text \<open>\<open>DiffFromHash\<close> (lines 324 to 334).\<close>

definition DiffFromHash :: "Repository \<Rightarrow> string \<Rightarrow> Diff outcome \<times> event list" where
  "DiffFromHash r hash =
     (case NewOid (repo r) hash of
        Inl err \<Rightarrow> (Err err, [])
      | Inr objectid \<Rightarrow>
          (case LookupCommit (repo r) objectid of
             Inl err \<Rightarrow> (Err err, [])
           | Inr c \<Rightarrow>
               Diff r \<lparr>commit = Some c, Commit.Hash = [], Author = None, Message = [],
                       Summary = [], Type = []\<rparr>))"

text \<open>The accessors of \<open>Diff\<close> (lines 342 to 352).\<close>

definition Deltas :: "Diff \<Rightarrow> DiffDelta list" where
  "Deltas d = deltas d"

definition Patches :: "Diff \<Rightarrow> string list" where
  "Patches d = patchs d"

definition Stats :: "Diff \<Rightarrow> string list" where
  "Stats d = stats d"

subsection \<open>DiffDelta.String\<close>

text \<open>
  Lines 361 to 372. A nil \<open>OldFile\<close> or \<open>NewFile\<close> panics where it is read, and so
  does \<open>Hash[:7]\<close> on a hash of fewer than seven bytes. \<open>&&\<close> does not read
  \<open>NewFile\<close> when the old path is empty.
\<close>

definition DiffDelta_String :: "DiffDelta \<Rightarrow> string outcome" where
  "DiffDelta_String d =
     (let s = [] @ Itoa (Status d) @ '' '' in
      (case OldFile d of
         None \<Rightarrow> Panic
       | Some old \<Rightarrow>
           if length (Path old) > 0 then
             (case NewFile d of
                None \<Rightarrow> Panic
              | Some new \<Rightarrow>
                  if length (Path new) > 0 then
                    (if Path old = Path new then
                       (if length (DiffFile.Hash old) < 7 then Panic
                        else if length (DiffFile.Hash new) < 7 then Panic
                        else Ok (s @ Path old @ '' '' @ take 7 (DiffFile.Hash old) @ ''..''
                                   @ take 7 (DiffFile.Hash new)))
                     else Ok (s @ Path old @ '' -> '' @ Path new))
                  else Ok s)
           else Ok s))"

text \<open>\<open>PatchString\<close> (lines 374 to 376).\<close>

definition PatchString :: "DiffDelta \<Rightarrow> string" where
  "PatchString d = ''patch: '' @ Patch d"

subsection \<open>Open\<close>

text \<open>
  \<open>Open\<close> (lines 79 to 99); \<open>OpenRepository\<close> of the binding is a parameter.
\<close>

definition Open :: "(string \<Rightarrow> error + lib_repository) \<Rightarrow> string \<Rightarrow> Repository outcome" where
  "Open OpenRepository path =
     (case OpenRepository path of
        Inl err \<Rightarrow> Err err
      | Inr lr \<Rightarrow>
          (case loadBranches \<lparr>RepoID = [], Repository.Name = [], AbsPath = path, repo = lr,
                              Branches = [], Commits = [], Remotes = []\<rparr> of
             Err err \<Rightarrow> Err err
           | Panic \<Rightarrow> Panic
           | Ok (r1, Some err) \<Rightarrow> Err err
           | Ok (r1, None) \<Rightarrow> loadCommits r1))"

section \<open>Vocabulary of the properties\<close>

text \<open>
  What the store answers at delta index \<open>i\<close>, in the words of the loop: extraction
  fails when \<open>Patch(i)\<close>, \<open>GetDelta(i)\<close> or \<open>patch.String()\<close> returns an error.
\<close>

definition extraction_fails :: "lib_diff \<Rightarrow> nat \<Rightarrow> bool" where
  "extraction_fails diff i =
     (case d_Patch diff i of
        Inl err \<Rightarrow> True
      | Inr patch \<Rightarrow> isl (d_GetDelta diff i) \<or> isl (p_String patch))"

text \<open>The error of \<open>patch.Free()\<close> for the patch of index \<open>i\<close>, if there is one.\<close>

definition Free_error :: "lib_diff \<Rightarrow> nat \<Rightarrow> error option" where
  "Free_error diff i =
     (case d_Patch diff i of
        Inl err \<Rightarrow> None
      | Inr patch \<Rightarrow> p_Free patch)"

text \<open>The delta and the patch text that index \<open>i\<close> contributes when its extraction succeeds.\<close>

definition extract_at :: "lib_diff \<Rightarrow> nat \<Rightarrow> (DiffDelta \<times> string) option" where
  "extract_at diff i =
     (case d_Patch diff i of
        Inl err \<Rightarrow> None
      | Inr patch \<Rightarrow>
          (case d_GetDelta diff i of
             Inl err \<Rightarrow> None
           | Inr dd \<Rightarrow>
               (case p_String patch of
                  Inl err \<Rightarrow> None
                | Inr patchtext \<Rightarrow>
                    Some (\<lparr>Status = ld_Status dd,
                           OldFile = Some \<lparr>Path = lf_Path (ld_OldFile dd),
                                           DiffFile.Hash = oid_String (lf_Oid (ld_OldFile dd))\<rparr>,
                           NewFile = Some \<lparr>Path = lf_Path (ld_NewFile dd),
                                           DiffFile.Hash = oid_String (lf_Oid (ld_NewFile dd))\<rparr>,
                           Patch = patchtext\<rparr>, patchtext))))"

text \<open>
  The store calls of \<open>Diff\<close> before its loop all succeed: the commit handle is there,
  both trees are read, and the diff object gives its statistics text and its count.
\<close>

definition diff_ready :: "Repository \<Rightarrow> Commit \<Rightarrow> lib_commit \<Rightarrow> lib_tree option \<Rightarrow> lib_tree
    \<Rightarrow> lib_diff \<Rightarrow> string \<Rightarrow> int \<Rightarrow> bool" where
  "diff_ready r c cc pTree cTree diff statsText n =
     (commit c = Some cc \<and> lc_Tree cc = Inr cTree \<and> parent_Tree cc = Ok pTree \<and>
      DefaultDiffOptions (repo r) = None \<and> DiffTreeToTree (repo r) pTree cTree = Inr diff \<and>
      d_Stats diff = Inr (Inr statsText) \<and> d_NumDeltas diff = Inr n)"

text \<open>
  The invariant of \<open>Branch.Upstream\<close>: only a local branch has one, and the upstream
  is a remote branch that has no upstream itself.
\<close>

definition upstream_ok :: "Branch \<Rightarrow> bool" where
  "upstream_ok b =
     ((\<not> isRemote b \<longrightarrow>
         (case Upstream b of None \<Rightarrow> True | Some u \<Rightarrow> isRemote u \<and> Upstream u = None)) \<and>
      (isRemote b \<longrightarrow> Upstream b = None))"

section \<open>An example repository\<close>

text \<open>
  Two commits: a root commit that holds \<open>a.txt\<close>, and a child that changes \<open>a.txt\<close>
  and adds \<open>b.txt\<close>. The store is given with the patch objects as a parameter, so that
  the same repository can be read with patches that fail.
\<close>

definition ex_signature :: lib_signature where
  "ex_signature = \<lparr>sig_Name = ''Ann'', sig_Email = ''ann@example.org'', sig_When = 1500000000\<rparr>"

definition ex_zero_oid :: oid where
  "ex_zero_oid = Oid ''0000000000000000000000000000000000000000''"

definition ex_blob_a1 :: oid where
  "ex_blob_a1 = Oid ''a1a1a1a1a1a1a1a1a1a1a1a1a1a1a1a1a1a1a1a1''"

definition ex_blob_a2 :: oid where
  "ex_blob_a2 = Oid ''a2a2a2a2a2a2a2a2a2a2a2a2a2a2a2a2a2a2a2a2''"

definition ex_blob_b :: oid where
  "ex_blob_b = Oid ''b1b1b1b1b1b1b1b1b1b1b1b1b1b1b1b1b1b1b1b1''"

definition ex_id_root :: oid where
  "ex_id_root = Oid ''c1c1c1c1c1c1c1c1c1c1c1c1c1c1c1c1c1c1c1c1''"

definition ex_id_child :: oid where
  "ex_id_child = Oid ''c2c2c2c2c2c2c2c2c2c2c2c2c2c2c2c2c2c2c2c2''"

definition ex_tree_root :: lib_tree where
  "ex_tree_root = LibTree [\<lparr>lf_Path = ''a.txt'', lf_Oid = ex_blob_a1\<rparr>]"

definition ex_tree_child :: lib_tree where
  "ex_tree_child = LibTree [\<lparr>lf_Path = ''a.txt'', lf_Oid = ex_blob_a2\<rparr>,
                            \<lparr>lf_Path = ''b.txt'', lf_Oid = ex_blob_b\<rparr>]"

definition ex_commit_root :: lib_commit where
  "ex_commit_root = LibCommit ex_id_root ex_signature ''first'' ''first'' (Inr ex_tree_root) []"

definition ex_commit_child :: lib_commit where
  "ex_commit_child =
     LibCommit ex_id_child ex_signature ''second'' ''second'' (Inr ex_tree_child)
       [Some ex_commit_root]"

text \<open>
  The deltas, with the status codes of the store (1 added, 3 modified) and, as the
  specification describes an addition, an empty old path.
\<close>

definition ex_delta_root_a :: lib_delta where
  "ex_delta_root_a =
     \<lparr>ld_Status = 1,
      ld_OldFile = \<lparr>lf_Path = [], lf_Oid = ex_zero_oid\<rparr>,
      ld_NewFile = \<lparr>lf_Path = ''a.txt'', lf_Oid = ex_blob_a1\<rparr>\<rparr>"

definition ex_delta_child_a :: lib_delta where
  "ex_delta_child_a =
     \<lparr>ld_Status = 3,
      ld_OldFile = \<lparr>lf_Path = ''a.txt'', lf_Oid = ex_blob_a1\<rparr>,
      ld_NewFile = \<lparr>lf_Path = ''a.txt'', lf_Oid = ex_blob_a2\<rparr>\<rparr>"

definition ex_delta_child_b :: lib_delta where
  "ex_delta_child_b =
     \<lparr>ld_Status = 1,
      ld_OldFile = \<lparr>lf_Path = [], lf_Oid = ex_zero_oid\<rparr>,
      ld_NewFile = \<lparr>lf_Path = ''b.txt'', lf_Oid = ex_blob_b\<rparr>\<rparr>"

definition ex_stats_root :: string where
  "ex_stats_root = '' a.txt | 1 +'' @ [CHR 0x0A] @ '' 1 file changed, 1 insertion(+)'' @ [CHR 0x0A]"

definition ex_stats_child :: string where
  "ex_stats_child = '' a.txt | 2 +-'' @ [CHR 0x0A] @ '' b.txt | 1 +'' @ [CHR 0x0A]
     @ '' 2 files changed, 2 insertions(+), 1 deletion(-)'' @ [CHR 0x0A]"

definition ex_diff :: "lib_delta list \<Rightarrow> string \<Rightarrow> (nat \<Rightarrow> error + lib_patch) \<Rightarrow> lib_diff" where
  "ex_diff dds statsText patch_at =
     \<lparr>d_Stats = Inr (Inr statsText),
      d_NumDeltas = Inr (int (length dds)),
      d_Patch = patch_at,
      d_GetDelta = (\<lambda>i. if i < length dds then Inr (dds ! i) else Inl (GitError ''no delta''))\<rparr>"

text \<open>The branches: \<open>main\<close> at the child, tracking \<open>origin/main\<close> at the root.\<close>

definition ex_branch_main :: lib_branch where
  "ex_branch_main =
     \<lparr>br_Name = Inr ''main'', br_RefName = ''refs/heads/main'', br_Target = Some ex_id_child,
      br_Resolve = Inl (GitError ''not symbolic''), br_IsRemote = False,
      br_Upstream = Inr (Some \<lparr>ref_Name = ''refs/remotes/origin/main'',
                               ref_Target = Some ex_id_root\<rparr>)\<rparr>"

definition ex_branch_origin_main :: lib_branch where
  "ex_branch_origin_main =
     \<lparr>br_Name = Inr ''origin/main'', br_RefName = ''refs/remotes/origin/main'',
      br_Target = Some ex_id_root, br_Resolve = Inl (GitError ''not symbolic''),
      br_IsRemote = True, br_Upstream = Inl (GitError ''not a local branch'')\<rparr>"

definition ex_lib :: "lib_branch list \<Rightarrow> (nat \<Rightarrow> error + lib_patch) \<Rightarrow> lib_repository" where
  "ex_lib branches patch_at =
     \<lparr>NewOid = (\<lambda>s. if length s = 40 then Inr (Oid s) else Inl (GitError ''invalid oid'')),
      NewBranchIterator = Inr (branches, None),
      Head = Inr ex_id_child,
      Walk = None,
      walk_Push = (\<lambda>oid. None),
      walk_Iterate = (\<lambda>start. if start = [ex_id_child] then [ex_commit_child, ex_commit_root]
                               else if start = [ex_id_root] then [ex_commit_root] else []),
      LookupCommit = (\<lambda>oid. if oid = ex_id_child then Inr ex_commit_child
                             else if oid = ex_id_root then Inr ex_commit_root
                             else Inl (GitError ''not found'')),
      DefaultDiffOptions = None,
      DiffTreeToTree = (\<lambda>pTree cTree.
         if pTree = None \<and> cTree = ex_tree_root
         then Inr (ex_diff [ex_delta_root_a] ex_stats_root patch_at)
         else if pTree = Some ex_tree_root \<and> cTree = ex_tree_child
         then Inr (ex_diff [ex_delta_child_a, ex_delta_child_b] ex_stats_child patch_at)
         else Inl (GitError ''no diff''))\<rparr>"

definition ex_repository :: "lib_branch list \<Rightarrow> (nat \<Rightarrow> error + lib_patch) \<Rightarrow> Repository" where
  "ex_repository branches patch_at =
     \<lparr>RepoID = [], Repository.Name = [], AbsPath = ''/repo'', repo = ex_lib branches patch_at,
      Branches = [], Commits = [], Remotes = []\<rparr>"

text \<open>Patch objects: all sound; and variants in which one call fails.\<close>

definition ex_patch :: "string \<Rightarrow> lib_patch" where
  "ex_patch text = \<lparr>p_String = Inr text, p_Free = None\<rparr>"

definition ex_patches_ok :: "nat \<Rightarrow> error + lib_patch" where
  "ex_patches_ok i = Inr (ex_patch (''patch '' @ Itoa (int i)))"

definition ex_patches_first_missing :: "nat \<Rightarrow> error + lib_patch" where
  "ex_patches_first_missing i =
     (if i = 0 then Inl (GitError ''cannot read blob'') else ex_patches_ok i)"

definition ex_patches_first_unprintable :: "nat \<Rightarrow> error + lib_patch" where
  "ex_patches_first_unprintable i =
     (if i = 0 then Inr \<lparr>p_String = Inl (GitError ''out of memory''), p_Free = None\<rparr>
      else ex_patches_ok i)"

definition ex_patches_first_unfreeable :: "nat \<Rightarrow> error + lib_patch" where
  "ex_patches_first_unfreeable i =
     (if i = 0 then Inr \<lparr>p_String = Inr ''patch 0'', p_Free = Some (GitError ''invalid'')\<rparr>
      else ex_patches_ok i)"

text \<open>The two commits as the walk of \<open>loadCommits\<close> builds them.\<close>

definition ex_Commit_root :: Commit where
  "ex_Commit_root = loadCommits_callback ex_commit_root"

definition ex_Commit_child :: Commit where
  "ex_Commit_child = loadCommits_callback ex_commit_child"

text \<open>The deltas that \<open>Diff\<close> builds from the store's deltas of the child.\<close>

definition ex_DiffDelta_a :: DiffDelta where
  "ex_DiffDelta_a =
     \<lparr>Status = 3,
      OldFile = Some \<lparr>Path = ''a.txt'',
                      DiffFile.Hash = ''a1a1a1a1a1a1a1a1a1a1a1a1a1a1a1a1a1a1a1a1''\<rparr>,
      NewFile = Some \<lparr>Path = ''a.txt'',
                      DiffFile.Hash = ''a2a2a2a2a2a2a2a2a2a2a2a2a2a2a2a2a2a2a2a2''\<rparr>,
      Patch = ''patch 0''\<rparr>"

definition ex_DiffDelta_b :: DiffDelta where
  "ex_DiffDelta_b =
     \<lparr>Status = 1,
      OldFile = Some \<lparr>Path = [],
                      DiffFile.Hash = ''0000000000000000000000000000000000000000''\<rparr>,
      NewFile = Some \<lparr>Path = ''b.txt'',
                      DiffFile.Hash = ''b1b1b1b1b1b1b1b1b1b1b1b1b1b1b1b1b1b1b1b1''\<rparr>,
      Patch = ''patch 1''\<rparr>"

definition ex_DiffDelta_root :: DiffDelta where
  "ex_DiffDelta_root =
     \<lparr>Status = 1,
      OldFile = Some \<lparr>Path = [],
                      DiffFile.Hash = ''0000000000000000000000000000000000000000''\<rparr>,
      NewFile = Some \<lparr>Path = ''a.txt'',
                      DiffFile.Hash = ''a1a1a1a1a1a1a1a1a1a1a1a1a1a1a1a1a1a1a1a1''\<rparr>,
      Patch = ''patch 0''\<rparr>"

definition ex_Stats_child :: "string list" where
  "ex_Stats_child =
     ['' a.txt | 2 +-'', '' b.txt | 1 +'',
      '' 2 files changed, 2 insertions(+), 1 deletion(-)'', []]"

definition ex_Stats_root :: "string list" where
  "ex_Stats_root = ['' a.txt | 1 +'', '' 1 file changed, 1 insertion(+)'', []]"

text \<open>A local branch \<open>main\<close> at the child for which no upstream is configured.\<close>

definition ex_branch_main_untracked :: lib_branch where
  "ex_branch_main_untracked = ex_branch_main\<lparr>br_Upstream := Inl (GitError ''not found'')\<rparr>"

text \<open>
  A clone that is up to date: \<open>main\<close> and \<open>origin/main\<close> are both at the child,
  where HEAD is.
\<close>

definition ex_branch_main_synced :: lib_branch where
  "ex_branch_main_synced =
     ex_branch_main\<lparr>br_Upstream := Inr (Some \<lparr>ref_Name = ''refs/remotes/origin/main'',
                                                ref_Target = Some ex_id_child\<rparr>)\<rparr>"

definition ex_branch_origin_main_synced :: lib_branch where
  "ex_branch_origin_main_synced = ex_branch_origin_main\<lparr>br_Target := Some ex_id_child\<rparr>"

text \<open>The branches that \<open>loadBranches\<close> builds from the above.\<close>

definition ex_Upstream :: "string \<Rightarrow> Branch" where
  "ex_Upstream hash = Branch [] ''refs/remotes/origin/main'' hash None [] [] False True"

definition ex_Branch_main :: "Branch option \<Rightarrow> Branch" where
  "ex_Branch_main upstream =
     Branch ''main'' ''refs/heads/main'' ''c2c2c2c2c2c2c2c2c2c2c2c2c2c2c2c2c2c2c2c2'' upstream
       [] [] False False"

definition ex_Branch_origin_main :: "string \<Rightarrow> Branch" where
  "ex_Branch_origin_main hash =
     Branch ''origin/main'' ''refs/remotes/origin/main'' hash None [] [] False True"




text \<open>A delta as a caller may build it, with hashes of three bytes.\<close>

definition ex_DiffDelta_short :: DiffDelta where
  "ex_DiffDelta_short =
     \<lparr>Status = 3,
      OldFile = Some \<lparr>Path = ''a.txt'', DiffFile.Hash = ''a1a''\<rparr>,
      NewFile = Some \<lparr>Path = ''a.txt'', DiffFile.Hash = ''a2a''\<rparr>,
      Patch = []\<rparr>"

section \<open>Facts about the loop of Diff\<close>

lemma Split_nonempty: "Split s sep \<noteq> []"
  by (induction s) (auto split: list.splits)

lemma length_Split: "length (Split s sep) = Suc (length (filter (\<lambda>x. x = sep) s))"
  by (induction s) (auto split: list.splits simp: Split_nonempty)

lemma extraction_fails_extract: "extraction_fails diff i \<longleftrightarrow> extract_at diff i = None"
  by (auto simp: extraction_fails_def extract_at_def isl_def split: sum.splits)

lemma upt_step: "int i < n \<Longrightarrow> [i..<nat n] = i # [Suc i..<nat n]"
  by (simp add: upt_conv_Cons)

lemma Diff_loop_Ok:
  "Diff_loop diff n i ds ps tr = (Ok (ds', ps'), tr') \<Longrightarrow>
     ds' = ds @ map fst (List.map_filter (extract_at diff) [i..<nat n]) \<and>
     ps' = ps @ map snd (List.map_filter (extract_at diff) [i..<nat n])"
proof (induction diff n i ds ps tr rule: Diff_loop.induct)
  case (1 diff n i ddeltas ptexts tr)
  show ?case
  proof (cases "int i < n")
    case False
    with "1.prems" show ?thesis
      by (simp add: Diff_loop.simps [of diff n i] map_filter_simps)
  next
    case True
    note step = upt_step [OF True]
    show ?thesis
      using "1.prems" "1.IH" True
      by (subst (asm) Diff_loop.simps)
        (auto simp: step map_filter_simps extract_at_def Let_def split: sum.splits option.splits)
  qed
qed


lemma extract_at_Patch: "extract_at diff i = Some (d, t) \<Longrightarrow> Patch d = t"
  by (auto simp: extract_at_def split: sum.splits)

lemma map_filter_extract_Patch:
  "map snd (List.map_filter (extract_at diff) js) = map (Patch \<circ> fst) (List.map_filter (extract_at diff) js)"
  by (induction js) (auto simp: map_filter_simps extract_at_Patch split: option.splits)

lemma Diff_Ok_ready:
  assumes "fst (Diff r c) = Ok d"
  shows "\<exists>cc pTree cTree diff statsText n.
           diff_ready r c cc pTree cTree diff statsText n \<and>
           deltas d = map fst (List.map_filter (extract_at diff) [0..<nat n]) \<and>
           patchs d = map snd (List.map_filter (extract_at diff) [0..<nat n]) \<and>
           stats d = Split statsText CHR 0x0A"
proof -
  from assms obtain tr df where body: "Diff_body r c = (Ok d, tr, df)"
    by (auto simp: Diff_def split: prod.splits)
  then obtain cc where cc: "commit c = Some cc"
    by (auto simp: Diff_body_def split: option.splits)
  from body cc obtain cTree where cTree: "lc_Tree cc = Inr cTree"
    by (auto simp: Diff_body_def split: sum.splits)
  from body cc cTree obtain pTree where pTree: "parent_Tree cc = Ok pTree"
    by (auto simp: Diff_body_def split: outcome.splits)
  from body cc cTree pTree have opt: "DefaultDiffOptions (repo r) = None"
    by (auto simp: Diff_body_def Let_def split: option.splits)
  from body cc cTree pTree opt obtain diff where diff: "DiffTreeToTree (repo r) pTree cTree = Inr diff"
    by (auto simp: Diff_body_def Let_def split: sum.splits)
  from body cc cTree pTree opt diff obtain statsText where st: "d_Stats diff = Inr (Inr statsText)"
    by (auto simp: Diff_body_def Let_def split: sum.splits)
  from body cc cTree pTree opt diff st obtain n where n: "d_NumDeltas diff = Inr n"
    by (auto simp: Diff_body_def Let_def split: sum.splits)
  define tr2 where "tr2 = (Acquire cTree_handle # (if pTree = None then [] else [Acquire pTree_handle])) @ [Acquire diff_handle]"
  from body cc cTree pTree opt diff st n obtain ds ps tr3
    where loop: "Diff_loop diff n 0 [] [] tr2 = (Ok (ds, ps), tr3)"
      and d: "d = \<lparr>deltas = ds, stats = Split statsText CHR 0x0A, patchs = ps\<rparr>"
    by (auto simp: Diff_body_def Let_def tr2_def split: prod.splits outcome.splits)
  from Diff_loop_Ok [OF loop] d cc cTree pTree opt diff st n show ?thesis
    by (auto simp: diff_ready_def)
qed


lemma Diff_ready_unfold:
  assumes "diff_ready r c cc pTree cTree diff statsText n"
  shows "Diff r c =
     (let tr2 = (Acquire cTree_handle # (if pTree = None then [] else [Acquire pTree_handle]))
                  @ [Acquire diff_handle];
          df2 = diff_handle # (if pTree = None then [] else [pTree_handle]) @ [cTree_handle]
      in (case Diff_loop diff n 0 [] [] tr2 of
            (Ok (ds, ps), tr3) \<Rightarrow>
              (Ok \<lparr>deltas = ds, stats = Split statsText CHR 0x0A, patchs = ps\<rparr>,
               tr3 @ map Release df2)
          | (Err err, tr3) \<Rightarrow> (Err err, tr3 @ map Release df2)
          | (Panic, tr3) \<Rightarrow> (Panic, tr3 @ map Release df2)))"
  using assms
  by (auto simp: diff_ready_def Diff_def Diff_body_def Let_def split: prod.splits outcome.splits)



lemma Diff_loop_done: "\<not> int i < n \<Longrightarrow> Diff_loop diff n i ds ps tr = (Ok (ds, ps), tr)"
  by (simp add: Diff_loop.simps [of diff n i])

lemma Diff_loop_fail_step:
  assumes "int i < n" and "extraction_fails diff i"
  shows "\<exists>ev. set ev \<subseteq> {Acquire (patch_handle i)} \<and>
           Diff_loop diff n i ds ps tr = Diff_loop diff n (Suc i) ds ps (tr @ ev)"
proof (cases "d_Patch diff i")
  case (Inl e)
  with assms(1) have "Diff_loop diff n i ds ps tr = Diff_loop diff n (Suc i) ds ps (tr @ [])"
    by (simp add: Diff_loop.simps [of diff n i])
  then show ?thesis by (intro exI [of _ "[]"]) simp
next
  case (Inr patch)
  with assms have "Diff_loop diff n i ds ps tr
      = Diff_loop diff n (Suc i) ds ps (tr @ [Acquire (patch_handle i)])"
    by (auto simp: Diff_loop.simps [of diff n i] extraction_fails_def isl_def split: sum.splits)
  then show ?thesis by (intro exI [of _ "[Acquire (patch_handle i)]"]) simp
qed

lemma Diff_loop_free_step:
  assumes "int i < n" and "extract_at diff i = Some (d, t)" and "Free_error diff i = Some err"
  shows "Diff_loop diff n i ds ps tr = (Err err, tr @ [Acquire (patch_handle i)])"
  using assms
  by (auto simp: Diff_loop.simps [of diff n i] extract_at_def Free_error_def split: sum.splits)

lemma Diff_loop_keep_step:
  assumes "int i < n" and "extract_at diff i = Some (d, t)" and "Free_error diff i = None"
  shows "Diff_loop diff n i ds ps tr =
           Diff_loop diff n (Suc i) (ds @ [d]) (ps @ [t])
             (tr @ [Acquire (patch_handle i), Release (patch_handle i)])"
  using assms
  by (auto simp: Diff_loop.simps [of diff n i] extract_at_def Free_error_def split: sum.splits)

lemma Diff_loop_all_freed:
  assumes "\<forall>j. i \<le> j \<and> int j < n \<longrightarrow> extraction_fails diff j \<or> Free_error diff j = None"
  shows "fst (Diff_loop diff n i ds ps tr) =
           Ok (ds @ map fst (List.map_filter (extract_at diff) [i..<nat n]),
               ps @ map snd (List.map_filter (extract_at diff) [i..<nat n]))"
  using assms
proof (induction "nat n - i" arbitrary: i ds ps tr)
  case 0
  then have "\<not> int i < n" by linarith
  then show ?case by (simp add: Diff_loop_done)
next
  case (Suc m)
  then have lt: "int i < n" by linarith
  from Suc.hyps(2) have m: "m = nat n - Suc i" by simp
  have rest: "\<forall>j. Suc i \<le> j \<and> int j < n \<longrightarrow> extraction_fails diff j \<or> Free_error diff j = None"
    using Suc.prems by simp
  show ?case
  proof (cases "extract_at diff i")
    case None
    then have "extraction_fails diff i" by (simp add: extraction_fails_extract)
    from Diff_loop_fail_step [OF lt this] obtain ev
      where "Diff_loop diff n i ds ps tr = Diff_loop diff n (Suc i) ds ps (tr @ ev)" by blast
    with Suc.hyps(1) [OF m rest] None show ?thesis
      by (simp add: upt_step [OF lt] map_filter_simps)
  next
    case (Some p)
    obtain d t where p: "p = (d, t)" by (cases p)
    from Some have "\<not> extraction_fails diff i" by (simp add: extraction_fails_extract)
    with Suc.prems lt have "Free_error diff i = None" by blast
    from Diff_loop_keep_step [OF lt Some [unfolded p] this] Suc.hyps(1) [OF m rest] Some p
    show ?thesis
      by (simp add: upt_step [OF lt] map_filter_simps)
  qed
qed

lemma Diff_loop_free_fatal:
  assumes "i \<le> k" and "int k < n"
    and "\<forall>j. i \<le> j \<and> j < k \<longrightarrow> extraction_fails diff j \<or> Free_error diff j = None"
    and "\<not> extraction_fails diff k" and "Free_error diff k = Some err"
  shows "\<exists>ev. Diff_loop diff n i ds ps tr = (Err err, tr @ ev) \<and>
           set ev \<subseteq> {e. \<exists>j. i \<le> j \<and> j \<le> k \<and> (e = Acquire (patch_handle j) \<or> e = Release (patch_handle j))}"
  using assms(1,3)
proof (induction "k - i" arbitrary: i ds ps tr)
  case 0
  then have ik: "i = k" by simp
  from assms(4) obtain d t where "extract_at diff k = Some (d, t)"
    by (cases "extract_at diff k") (auto simp: extraction_fails_extract)
  from Diff_loop_free_step [OF assms(2) this assms(5)] ik show ?case
    by (intro exI [of _ "[Acquire (patch_handle k)]"]) auto
next
  case (Suc m)
  then have ik: "i < k" by simp
  with assms(2) have lt: "int i < n" by simp
  from Suc.hyps(2) have m: "m = k - Suc i" by simp
  from ik have le: "Suc i \<le> k" by simp
  have rest: "\<forall>j. Suc i \<le> j \<and> j < k \<longrightarrow> extraction_fails diff j \<or> Free_error diff j = None"
    using Suc.prems by simp
  show ?case
  proof (cases "extract_at diff i")
    case None
    then have "extraction_fails diff i" by (simp add: extraction_fails_extract)
    from Diff_loop_fail_step [OF lt this] obtain ev0
      where ev0: "set ev0 \<subseteq> {Acquire (patch_handle i)}"
        and step: "Diff_loop diff n i ds ps tr = Diff_loop diff n (Suc i) ds ps (tr @ ev0)" by blast
    from Suc.hyps(1) [OF m le rest, of ds ps "tr @ ev0"] obtain ev
      where ev: "Diff_loop diff n (Suc i) ds ps (tr @ ev0) = (Err err, (tr @ ev0) @ ev)"
        and sub: "set ev \<subseteq> {e. \<exists>j. Suc i \<le> j \<and> j \<le> k \<and>
                     (e = Acquire (patch_handle j) \<or> e = Release (patch_handle j))}" by blast
    show ?thesis
    proof (intro exI [of _ "ev0 @ ev"] conjI)
      show "Diff_loop diff n i ds ps tr = (Err err, tr @ ev0 @ ev)" using step ev by simp
      show "set (ev0 @ ev) \<subseteq> {e. \<exists>j. i \<le> j \<and> j \<le> k \<and>
                     (e = Acquire (patch_handle j) \<or> e = Release (patch_handle j))}"
        using ev0 sub ik by fastforce
    qed
  next
    case (Some p)
    obtain d t where p: "p = (d, t)" by (cases p)
    from Some have "\<not> extraction_fails diff i" by (simp add: extraction_fails_extract)
    with Suc.prems ik have fr: "Free_error diff i = None" by blast
    note step = Diff_loop_keep_step [OF lt Some [unfolded p] fr, of ds ps tr]
    from Suc.hyps(1) [OF m le rest, of "ds @ [d]" "ps @ [t]"
        "tr @ [Acquire (patch_handle i), Release (patch_handle i)]"] obtain ev
      where ev: "Diff_loop diff n (Suc i) (ds @ [d]) (ps @ [t])
                   (tr @ [Acquire (patch_handle i), Release (patch_handle i)])
                 = (Err err, (tr @ [Acquire (patch_handle i), Release (patch_handle i)]) @ ev)"
        and sub: "set ev \<subseteq> {e. \<exists>j. Suc i \<le> j \<and> j \<le> k \<and>
                     (e = Acquire (patch_handle j) \<or> e = Release (patch_handle j))}" by blast
    show ?thesis
    proof (intro exI [of _ "[Acquire (patch_handle i), Release (patch_handle i)] @ ev"] conjI)
      show "Diff_loop diff n i ds ps tr
          = (Err err, tr @ [Acquire (patch_handle i), Release (patch_handle i)] @ ev)"
        using step ev by simp
      show "set ([Acquire (patch_handle i), Release (patch_handle i)] @ ev)
          \<subseteq> {e. \<exists>j. i \<le> j \<and> j \<le> k \<and>
                     (e = Acquire (patch_handle j) \<or> e = Release (patch_handle j))}"
        using sub ik by fastforce
    qed
  qed
qed

section \<open>The example repository evaluated\<close>

lemmas ex_defs =
  ex_repository_def ex_lib_def ex_diff_def ex_Commit_root_def ex_Commit_child_def
  loadCommits_callback_def ex_commit_root_def ex_commit_child_def ex_tree_root_def
  ex_tree_child_def ex_delta_root_a_def ex_delta_child_a_def ex_delta_child_b_def
  ex_stats_root_def ex_stats_child_def ex_blob_a1_def ex_blob_a2_def ex_blob_b_def
  ex_zero_oid_def ex_id_root_def ex_id_child_def ex_signature_def
  ex_patches_ok_def ex_patch_def ex_patches_first_missing_def
  ex_patches_first_unprintable_def ex_patches_first_unfreeable_def
  ex_DiffDelta_a_def ex_DiffDelta_b_def ex_Stats_child_def ex_Stats_root_def
  ex_branch_main_def ex_branch_origin_main_def ex_branch_main_untracked_def

lemmas run_defs =
  Diff_def Diff_body_def parent_Tree_def Diff_loop.simps Itoa_def nat_digits.simps

lemma ex_Diff_child_ok:
  "Diff (ex_repository [] ex_patches_ok) ex_Commit_child =
     (Ok \<lparr>deltas = [ex_DiffDelta_a, ex_DiffDelta_b], stats = ex_Stats_child,
          patchs = [''patch 0'', ''patch 1'']\<rparr>,
      [Acquire cTree_handle, Acquire pTree_handle, Acquire diff_handle,
       Acquire (patch_handle 0), Release (patch_handle 0),
       Acquire (patch_handle 1), Release (patch_handle 1),
       Release diff_handle, Release pTree_handle, Release cTree_handle])"
  by (simp add: ex_defs run_defs)

lemma ex_Diff_child_first_missing:
  "Diff (ex_repository [] ex_patches_first_missing) ex_Commit_child =
     (Ok \<lparr>deltas = [ex_DiffDelta_b], stats = ex_Stats_child, patchs = [''patch 1'']\<rparr>,
      [Acquire cTree_handle, Acquire pTree_handle, Acquire diff_handle,
       Acquire (patch_handle 1), Release (patch_handle 1),
       Release diff_handle, Release pTree_handle, Release cTree_handle])"
  by (simp add: ex_defs run_defs)

section \<open>The claims\<close>

subsection \<open>C10: the abbreviated hashes of DiffDelta.String\<close>

text \<open>
  Claim C10, as amended. For every \<open>DiffDelta\<close> whose old and new paths are non-empty
  and equal and whose two hashes have at least seven bytes, \<open>String()\<close> returns the
  status, the path, and the first seven bytes of the old hash and of the new hash,
  joined by two dots.
\<close>

theorem DiffDelta_String_abbreviates:
  assumes "OldFile d = Some old" and "NewFile d = Some new"
    and "Path old \<noteq> []" and "Path old = Path new"
    and "7 \<le> length (DiffFile.Hash old)" and "7 \<le> length (DiffFile.Hash new)"
  shows "DiffDelta_String d =
           Ok (Itoa (Status d) @ '' '' @ Path old @ '' '' @ take 7 (DiffFile.Hash old)
                 @ ''..'' @ take 7 (DiffFile.Hash new))"
  using assms by (simp add: DiffDelta_String_def)

text \<open>The delta of \<open>a.txt\<close> in the example: the hypotheses hold and the text is as stated.\<close>

theorem DiffDelta_String_abbreviates_witness:
  "OldFile ex_DiffDelta_a = Some \<lparr>Path = ''a.txt'',
       DiffFile.Hash = ''a1a1a1a1a1a1a1a1a1a1a1a1a1a1a1a1a1a1a1a1''\<rparr> \<and>
   NewFile ex_DiffDelta_a = Some \<lparr>Path = ''a.txt'',
       DiffFile.Hash = ''a2a2a2a2a2a2a2a2a2a2a2a2a2a2a2a2a2a2a2a2''\<rparr> \<and>
   DiffDelta_String ex_DiffDelta_a = Ok ''3 a.txt a1a1a1a..a2a2a2a''"
  using DiffDelta_String_abbreviates [of ex_DiffDelta_a
      "\<lparr>Path = ''a.txt'', DiffFile.Hash = ''a1a1a1a1a1a1a1a1a1a1a1a1a1a1a1a1a1a1a1a1''\<rparr>"
      "\<lparr>Path = ''a.txt'', DiffFile.Hash = ''a2a2a2a2a2a2a2a2a2a2a2a2a2a2a2a2a2a2a2a2''\<rparr>"]
  by (simp add: ex_DiffDelta_a_def Itoa_def nat_digits.simps)

text \<open>
  As the claim is written, for every such \<open>DiffDelta\<close>, it fails on hashes shorter than
  seven bytes: the paths are non-empty and equal, and \<open>String()\<close> panics.
\<close>

theorem DiffDelta_String_short_hash_counterexample:
  "OldFile ex_DiffDelta_short = Some \<lparr>Path = ''a.txt'', DiffFile.Hash = ''a1a''\<rparr> \<and>
   NewFile ex_DiffDelta_short = Some \<lparr>Path = ''a.txt'', DiffFile.Hash = ''a2a''\<rparr> \<and>
   DiffDelta_String ex_DiffDelta_short = Panic"
  by (simp add: ex_DiffDelta_short_def DiffDelta_String_def)

subsection \<open>C4: Deltas and Patches have the same length and the same patch texts\<close>

lemma Diff_Ok_patchs: "fst (Diff r c) = Ok d \<Longrightarrow> patchs d = map Patch (deltas d)"
  using Diff_Ok_ready [of r c d] by (auto simp: map_filter_extract_Patch)

text \<open>
  Claim C4. For every \<open>Diff\<close> that \<open>Repository.Diff\<close> or \<open>Repository.DiffFromHash\<close>
  returns without error, \<open>Deltas()\<close> and \<open>Patches()\<close> have the same length, and for
  each index \<open>i\<close> the text \<open>Patches()[i]\<close> is \<open>Deltas()[i].Patch\<close>.
\<close>

theorem Deltas_Patches_aligned:
  "(fst (Diff r c) = Ok d \<longrightarrow>
      length (Deltas d) = length (Patches d) \<and>
      (\<forall>i<length (Deltas d). Patches d ! i = Patch (Deltas d ! i))) \<and>
   (fst (DiffFromHash r hash) = Ok d' \<longrightarrow>
      length (Deltas d') = length (Patches d') \<and>
      (\<forall>i<length (Deltas d'). Patches d' ! i = Patch (Deltas d' ! i)))"
proof (intro conjI impI)
  assume "fst (Diff r c) = Ok d"
  then have "patchs d = map Patch (deltas d)" by (rule Diff_Ok_patchs)
  then show "length (Deltas d) = length (Patches d)"
    and "\<forall>i<length (Deltas d). Patches d ! i = Patch (Deltas d ! i)"
    by (simp_all add: Deltas_def Patches_def)
next
  assume ok: "fst (DiffFromHash r hash) = Ok d'"
  then obtain c' where "fst (Diff r c') = Ok d'"
    by (auto simp: DiffFromHash_def split: sum.splits)
  then have "patchs d' = map Patch (deltas d')" by (rule Diff_Ok_patchs)
  then show "length (Deltas d') = length (Patches d')"
    and "\<forall>i<length (Deltas d'). Patches d' ! i = Patch (Deltas d' ! i)"
    by (simp_all add: Deltas_def Patches_def)
qed

lemma ex_NewOid_child:
  "NewOid (repo (ex_repository [] ex_patches_ok)) ''c2c2c2c2c2c2c2c2c2c2c2c2c2c2c2c2c2c2c2c2''
     = Inr ex_id_child"
  by (simp add: ex_defs)

lemma ex_LookupCommit_child:
  "LookupCommit (repo (ex_repository [] ex_patches_ok)) ex_id_child = Inr ex_commit_child"
  by (simp add: ex_defs)

lemma Diff_commit_only: "commit c = commit c' \<Longrightarrow> Diff r c = Diff r c'"
  by (simp add: Diff_def Diff_body_def)

lemma DiffFromHash_resolved:
  assumes "NewOid (repo r) hash = Inr objectid" and "LookupCommit (repo r) objectid = Inr cc"
  shows "DiffFromHash r hash =
           Diff r \<lparr>commit = Some cc, Commit.Hash = [], Author = None, Message = [],
                   Summary = [], Type = []\<rparr>"
  using assms by (simp add: DiffFromHash_def)

lemma ex_DiffFromHash_child:
  "DiffFromHash (ex_repository [] ex_patches_ok) ''c2c2c2c2c2c2c2c2c2c2c2c2c2c2c2c2c2c2c2c2''
     = Diff (ex_repository [] ex_patches_ok) ex_Commit_child"
  by (simp add: DiffFromHash_resolved [OF ex_NewOid_child ex_LookupCommit_child]
      ex_Commit_child_def loadCommits_callback_def Diff_commit_only)

text \<open>
  The child commit of the example, read with sound patches, through \<open>Diff\<close> and
  through \<open>DiffFromHash\<close>: both return the same two deltas and two patch texts.
\<close>

theorem Deltas_Patches_aligned_witness:
  "fst (Diff (ex_repository [] ex_patches_ok) ex_Commit_child)
     = Ok \<lparr>deltas = [ex_DiffDelta_a, ex_DiffDelta_b], stats = ex_Stats_child,
           patchs = [''patch 0'', ''patch 1'']\<rparr> \<and>
   fst (DiffFromHash (ex_repository [] ex_patches_ok) ''c2c2c2c2c2c2c2c2c2c2c2c2c2c2c2c2c2c2c2c2'')
     = Ok \<lparr>deltas = [ex_DiffDelta_a, ex_DiffDelta_b], stats = ex_Stats_child,
           patchs = [''patch 0'', ''patch 1'']\<rparr> \<and>
   length (Deltas \<lparr>deltas = [ex_DiffDelta_a, ex_DiffDelta_b], stats = ex_Stats_child,
                   patchs = [''patch 0'', ''patch 1'']\<rparr>) = 2 \<and>
   length (Patches \<lparr>deltas = [ex_DiffDelta_a, ex_DiffDelta_b], stats = ex_Stats_child,
                   patchs = [''patch 0'', ''patch 1'']\<rparr>) = 2 \<and>
   Patches \<lparr>deltas = [ex_DiffDelta_a, ex_DiffDelta_b], stats = ex_Stats_child,
            patchs = [''patch 0'', ''patch 1'']\<rparr> ! 1 = Patch ex_DiffDelta_b"
  using Deltas_Patches_aligned [of "ex_repository [] ex_patches_ok" ex_Commit_child
      "\<lparr>deltas = [ex_DiffDelta_a, ex_DiffDelta_b], stats = ex_Stats_child,
        patchs = [''patch 0'', ''patch 1'']\<rparr>"
      "''c2c2c2c2c2c2c2c2c2c2c2c2c2c2c2c2c2c2c2c2''"
      "\<lparr>deltas = [ex_DiffDelta_a, ex_DiffDelta_b], stats = ex_Stats_child,
        patchs = [''patch 0'', ''patch 1'']\<rparr>"]
  by (simp add: ex_DiffFromHash_child ex_Diff_child_ok Deltas_def Patches_def ex_DiffDelta_b_def)


subsection \<open>C5: a delta that cannot be extracted is skipped\<close>

lemma length_map_filter:
  "length (List.map_filter f xs) = length (filter (\<lambda>x. f x \<noteq> None) xs)"
  by (induction xs) (auto simp: map_filter_simps split: option.splits)

lemma kept_count:
  "length (List.map_filter (extract_at diff) [0..<nat n])
     = length (filter (\<lambda>j. \<not> extraction_fails diff j) [0..<nat n])"
  by (simp add: length_map_filter extraction_fails_extract)

lemma kept_fewer:
  assumes "int j < n" and "extraction_fails diff j"
  shows "int (length (filter (\<lambda>j. \<not> extraction_fails diff j) [0..<nat n])) < n"
proof -
  from assms(1) have "j \<in> set [0..<nat n]" by simp
  with assms(2) have "length (filter (\<lambda>j. \<not> extraction_fails diff j) [0..<nat n])
      < length [0..<nat n]"
    by (intro length_filter_less [of j]) simp_all
  then show ?thesis by simp
qed

lemma Diff_ready_all_freed:
  assumes ready: "diff_ready r c cc pTree cTree diff statsText n"
    and freed: "\<forall>j. int j < n \<longrightarrow> extraction_fails diff j \<or> Free_error diff j = None"
  shows "fst (Diff r c) =
           Ok \<lparr>deltas = map fst (List.map_filter (extract_at diff) [0..<nat n]),
                stats = Split statsText CHR 0x0A,
                patchs = map snd (List.map_filter (extract_at diff) [0..<nat n])\<rparr>"
proof -
  define tr2 where "tr2 = (Acquire cTree_handle # (if pTree = None then [] else [Acquire pTree_handle]))
                  @ [Acquire diff_handle]"
  from freed have "\<forall>j. 0 \<le> j \<and> int j < n \<longrightarrow> extraction_fails diff j \<or> Free_error diff j = None"
    by simp
  from Diff_loop_all_freed [OF this, of "[]" "[]" tr2]
  obtain tr3 where "Diff_loop diff n 0 [] [] tr2 =
      (Ok (map fst (List.map_filter (extract_at diff) [0..<nat n]),
           map snd (List.map_filter (extract_at diff) [0..<nat n])), tr3)"
    by (cases "Diff_loop diff n 0 [] [] tr2") simp
  then show ?thesis
    by (simp add: Diff_ready_unfold [OF ready] Let_def tr2_def)
qed

text \<open>
  Claim C5. In the loop of \<open>Diff\<close>, when \<open>Patch(i)\<close>, \<open>GetDelta(i)\<close> or the
  rendering of the patch text fails at an index \<open>i\<close> below the count, the loop goes
  on at \<open>i + 1\<close> with both slices as they were (at most the patch object of \<open>i\<close>
  was obtained). When the calls before the loop succeed and no \<open>patch.Free()\<close> of an
  extracted delta fails, \<open>Diff\<close> returns a \<open>Diff\<close> without error whose \<open>Deltas()\<close>
  has one entry per index that was extracted; so if some index failed, its length is
  strictly less than the delta count of the underlying diff.
\<close>

theorem Diff_skips_failed_extraction:
  "(int i < n \<and> extraction_fails diff i \<longrightarrow>
      (\<exists>ev. set ev \<subseteq> {Acquire (patch_handle i)} \<and>
            Diff_loop diff n i ddeltas ptexts tr = Diff_loop diff n (Suc i) ddeltas ptexts (tr @ ev))) \<and>
   (diff_ready r c cc pTree cTree diff statsText n \<and>
    (\<forall>j. int j < n \<longrightarrow> extraction_fails diff j \<or> Free_error diff j = None) \<longrightarrow>
      (\<exists>d. fst (Diff r c) = Ok d \<and>
           length (Deltas d) = length (filter (\<lambda>j. \<not> extraction_fails diff j) [0..<nat n]) \<and>
           ((\<exists>j. int j < n \<and> extraction_fails diff j) \<longrightarrow> int (length (Deltas d)) < n)))"
proof (intro conjI impI)
  assume "int i < n \<and> extraction_fails diff i"
  then show "\<exists>ev. set ev \<subseteq> {Acquire (patch_handle i)} \<and>
      Diff_loop diff n i ddeltas ptexts tr = Diff_loop diff n (Suc i) ddeltas ptexts (tr @ ev)"
    by (simp add: Diff_loop_fail_step)
next
  assume a: "diff_ready r c cc pTree cTree diff statsText n \<and>
    (\<forall>j. int j < n \<longrightarrow> extraction_fails diff j \<or> Free_error diff j = None)"
  define d where "d = \<lparr>deltas = map fst (List.map_filter (extract_at diff) [0..<nat n]),
                stats = Split statsText CHR 0x0A,
                patchs = map snd (List.map_filter (extract_at diff) [0..<nat n])\<rparr>"
  from a have ready: "diff_ready r c cc pTree cTree diff statsText n"
    and freed: "\<forall>j. int j < n \<longrightarrow> extraction_fails diff j \<or> Free_error diff j = None"
    by simp_all
  have ok: "fst (Diff r c) = Ok d"
    unfolding d_def by (rule Diff_ready_all_freed [OF ready freed])
  have len: "length (Deltas d) = length (filter (\<lambda>j. \<not> extraction_fails diff j) [0..<nat n])"
    by (simp add: d_def Deltas_def kept_count)
  have "(\<exists>j. int j < n \<and> extraction_fails diff j) \<longrightarrow> int (length (Deltas d)) < n"
    unfolding len using kept_fewer [of _ n diff] by blast
  with ok len show "\<exists>d. fst (Diff r c) = Ok d \<and>
           length (Deltas d) = length (filter (\<lambda>j. \<not> extraction_fails diff j) [0..<nat n]) \<and>
           ((\<exists>j. int j < n \<and> extraction_fails diff j) \<longrightarrow> int (length (Deltas d)) < n)"
    by blast
qed


lemma ex_ready_child:
  "diff_ready (ex_repository [] patch_at) ex_Commit_child ex_commit_child (Some ex_tree_root)
     ex_tree_child (ex_diff [ex_delta_child_a, ex_delta_child_b] ex_stats_child patch_at)
     ex_stats_child 2"
  by (simp add: diff_ready_def parent_Tree_def ex_repository_def ex_lib_def ex_Commit_child_def
      loadCommits_callback_def ex_commit_child_def ex_commit_root_def ex_diff_def)


lemma ex_first_missing_fails:
  "extraction_fails (ex_diff dds statsText ex_patches_first_missing) 0"
  by (simp add: extraction_fails_def ex_diff_def ex_patches_first_missing_def)

lemma ex_first_missing_freed:
  "Free_error (ex_diff dds statsText ex_patches_first_missing) j = None"
  by (simp add: Free_error_def ex_diff_def ex_patches_first_missing_def ex_patches_ok_def
      ex_patch_def)

text \<open>
  The child commit read with a first patch that cannot be obtained: index 0 is skipped
  and \<open>Diff\<close> returns fewer deltas than the two of the diff.
\<close>

theorem Diff_skips_failed_extraction_witness:
  "(\<exists>ev. set ev \<subseteq> {Acquire (patch_handle 0)} \<and>
      Diff_loop (ex_diff [ex_delta_child_a, ex_delta_child_b] ex_stats_child
                   ex_patches_first_missing) 2 0 [] [] []
      = Diff_loop (ex_diff [ex_delta_child_a, ex_delta_child_b] ex_stats_child
                   ex_patches_first_missing) 2 (Suc 0) [] [] ([] @ ev)) \<and>
   (\<exists>d. fst (Diff (ex_repository [] ex_patches_first_missing) ex_Commit_child) = Ok d \<and>
      int (length (Deltas d)) < 2)"
proof -
  let ?diff = "ex_diff [ex_delta_child_a, ex_delta_child_b] ex_stats_child ex_patches_first_missing"
  have h1: "int 0 < 2 \<and> extraction_fails ?diff 0"
    by (simp add: ex_first_missing_fails)
  have h2: "diff_ready (ex_repository [] ex_patches_first_missing) ex_Commit_child
      ex_commit_child (Some ex_tree_root) ex_tree_child ?diff ex_stats_child 2 \<and>
      (\<forall>j. int j < 2 \<longrightarrow> extraction_fails ?diff j \<or> Free_error ?diff j = None)"
    by (simp add: ex_ready_child ex_first_missing_freed)
  have h3: "\<exists>j. int j < 2 \<and> extraction_fails ?diff j"
    using h1 by blast
  from Diff_skips_failed_extraction [of 0 2 ?diff "[]" "[]" "[]"
      "ex_repository [] ex_patches_first_missing" ex_Commit_child ex_commit_child
      "Some ex_tree_root" ex_tree_child ex_stats_child] h1 h2 h3
  show ?thesis by blast
qed


subsection \<open>C6: a patch that cannot be freed ends Diff\<close>

text \<open>
  Claim C6. When the calls before the loop succeed, the indices before \<open>k\<close> are either
  skipped or freed, and at index \<open>k\<close> the delta is extracted but \<open>patch.Free()\<close>
  returns an error, then \<open>Diff\<close> returns that error and no \<open>Diff\<close>; the loop returns
  at \<open>k\<close> itself, and no patch of a later index is obtained.
\<close>

theorem Diff_patch_Free_failure_fatal:
  assumes ready: "diff_ready r c cc pTree cTree diff statsText n"
    and k: "int k < n"
    and before: "\<forall>j<k. extraction_fails diff j \<or> Free_error diff j = None"
    and extracted: "\<not> extraction_fails diff k"
    and free: "Free_error diff k = Some err"
  shows "fst (Diff r c) = Err err \<and>
         (\<forall>ddeltas ptexts tr. Diff_loop diff n k ddeltas ptexts tr
              = (Err err, tr @ [Acquire (patch_handle k)])) \<and>
         (\<forall>j>k. Acquire (patch_handle j) \<notin> set (snd (Diff r c)))"
proof (intro conjI allI impI)
  define tr2 where "tr2 = (Acquire cTree_handle # (if pTree = None then [] else [Acquire pTree_handle]))
                  @ [Acquire diff_handle]"
  define df2 where "df2 = diff_handle # (if pTree = None then [] else [pTree_handle]) @ [cTree_handle]"
  from before have "\<forall>j. 0 \<le> j \<and> j < k \<longrightarrow> extraction_fails diff j \<or> Free_error diff j = None"
    by simp
  from Diff_loop_free_fatal [OF _ k this extracted free, of "[]" "[]" tr2]
  obtain ev where loop: "Diff_loop diff n 0 [] [] tr2 = (Err err, tr2 @ ev)"
    and ev: "set ev \<subseteq> {e. \<exists>j. 0 \<le> j \<and> j \<le> k \<and>
                (e = Acquire (patch_handle j) \<or> e = Release (patch_handle j))}"
    by blast
  have run: "Diff r c = (Err err, (tr2 @ ev) @ map Release df2)"
    using loop by (simp add: Diff_ready_unfold [OF ready] Let_def tr2_def df2_def)
  then show "fst (Diff r c) = Err err" by simp
  fix j assume j: "k < j"
  have "Acquire (patch_handle j) \<notin> set tr2" by (simp add: tr2_def)
  moreover have "Acquire (patch_handle j) \<notin> set ev" using ev j by auto
  moreover have "Acquire (patch_handle j) \<notin> set (map Release df2)" by auto
  ultimately show "Acquire (patch_handle j) \<notin> set (snd (Diff r c))"
    by (simp add: run)
next
  fix ddeltas ptexts tr
  from extracted obtain d t where "extract_at diff k = Some (d, t)"
    by (cases "extract_at diff k") (auto simp: extraction_fails_extract)
  from Diff_loop_free_step [OF k this free]
  show "Diff_loop diff n k ddeltas ptexts tr = (Err err, tr @ [Acquire (patch_handle k)])" .
qed

text \<open>
  The child commit read with a first patch whose \<open>Free()\<close> fails: \<open>Diff\<close> returns
  the error, and the patch of index 1 is never obtained.
\<close>

theorem Diff_patch_Free_failure_fatal_witness:
  "fst (Diff (ex_repository [] ex_patches_first_unfreeable) ex_Commit_child)
     = Err (GitError ''invalid'') \<and>
   Acquire (patch_handle 1)
     \<notin> set (snd (Diff (ex_repository [] ex_patches_first_unfreeable) ex_Commit_child))"
proof -
  let ?diff = "ex_diff [ex_delta_child_a, ex_delta_child_b] ex_stats_child
                 ex_patches_first_unfreeable"
  have h1: "int 0 < 2" by simp
  have h2: "\<forall>j<0::nat. extraction_fails ?diff j \<or> Free_error ?diff j = None" by simp
  have h3: "\<not> extraction_fails ?diff 0"
    by (simp add: extraction_fails_def ex_diff_def ex_patches_first_unfreeable_def)
  have h4: "Free_error ?diff 0 = Some (GitError ''invalid'')"
    by (simp add: Free_error_def ex_diff_def ex_patches_first_unfreeable_def)
  from Diff_patch_Free_failure_fatal [OF ex_ready_child h1 h2 h3 h4]
  show ?thesis by simp
qed


subsection \<open>C2: the order of the three sequences\<close>

text \<open>
  Claim C2, as amended. For every \<open>Diff\<close> returned by \<open>Repository.Diff\<close>, the
  sequences \<open>deltas\<close> and \<open>patchs\<close> are produced in the same iteration order and are
  index-aligned: they are the first and the second components of one list of pairs,
  built for the delta indices below the count in increasing order, one pair for each
  index whose extraction succeeds. \<open>stats\<close> is the statistics text of the diff split
  at its newlines; it has one line more than the text has newlines and is not aligned
  with the deltas.
\<close>

theorem Diff_sequences_order:
  assumes "fst (Diff r c) = Ok d"
  shows "\<exists>cc pTree cTree diff statsText n.
           diff_ready r c cc pTree cTree diff statsText n \<and>
           Deltas d = map fst (List.map_filter (extract_at diff) [0..<nat n]) \<and>
           Patches d = map snd (List.map_filter (extract_at diff) [0..<nat n]) \<and>
           Stats d = Split statsText CHR 0x0A \<and>
           length (Stats d) = Suc (length (filter (\<lambda>x. x = CHR 0x0A) statsText))"
proof -
  from Diff_Ok_ready [OF assms] obtain cc pTree cTree diff statsText n
    where "diff_ready r c cc pTree cTree diff statsText n"
      and "deltas d = map fst (List.map_filter (extract_at diff) [0..<nat n])"
      and "patchs d = map snd (List.map_filter (extract_at diff) [0..<nat n])"
      and "stats d = Split statsText CHR 0x0A"
    by blast
  then show ?thesis
    unfolding Deltas_def Patches_def Stats_def
    by (intro exI [of _ cc] exI [of _ pTree] exI [of _ cTree] exI [of _ diff]
        exI [of _ statsText] exI [of _ n]) (simp add: length_Split)
qed

text \<open>The root commit of the example, read with sound patches.\<close>

theorem Diff_sequences_order_witness:
  "fst (Diff (ex_repository [] ex_patches_ok) ex_Commit_root)
     = Ok \<lparr>deltas = [ex_DiffDelta_root], stats = ex_Stats_root, patchs = [''patch 0'']\<rparr> \<and>
   (\<exists>cc pTree cTree diff statsText n.
      diff_ready (ex_repository [] ex_patches_ok) ex_Commit_root cc pTree cTree diff statsText n \<and>
      [ex_DiffDelta_root] = map fst (List.map_filter (extract_at diff) [0..<nat n]) \<and>
      [''patch 0''] = map snd (List.map_filter (extract_at diff) [0..<nat n]) \<and>
      ex_Stats_root = Split statsText CHR 0x0A \<and>
      length ex_Stats_root = Suc (length (filter (\<lambda>x. x = CHR 0x0A) statsText)))"
proof -
  have h: "fst (Diff (ex_repository [] ex_patches_ok) ex_Commit_root)
     = Ok \<lparr>deltas = [ex_DiffDelta_root], stats = ex_Stats_root, patchs = [''patch 0'']\<rparr>"
    by (simp add: ex_defs run_defs ex_DiffDelta_root_def)
  from Diff_sequences_order [OF h] h show ?thesis
    unfolding Deltas_def Patches_def Stats_def by simp
qed

text \<open>
  As the claim is written, with \<open>stats\<close> aligned to the other two, it fails on the
  child commit read with a first patch that cannot be obtained: one delta, for
  \<open>b.txt\<close>, and four lines of statistics, of which the first is for \<open>a.txt\<close>.
\<close>

theorem Diff_stats_not_aligned_counterexample:
  "fst (Diff (ex_repository [] ex_patches_first_missing) ex_Commit_child)
     = Ok \<lparr>deltas = [ex_DiffDelta_b], stats = ex_Stats_child, patchs = [''patch 1'']\<rparr> \<and>
   length (Deltas \<lparr>deltas = [ex_DiffDelta_b], stats = ex_Stats_child, patchs = [''patch 1'']\<rparr>) = 1 \<and>
   length (Stats \<lparr>deltas = [ex_DiffDelta_b], stats = ex_Stats_child, patchs = [''patch 1'']\<rparr>) = 4 \<and>
   NewFile (Deltas \<lparr>deltas = [ex_DiffDelta_b], stats = ex_Stats_child,
                     patchs = [''patch 1'']\<rparr> ! 0)
     = Some \<lparr>Path = ''b.txt'', DiffFile.Hash = ''b1b1b1b1b1b1b1b1b1b1b1b1b1b1b1b1b1b1b1b1''\<rparr> \<and>
   Stats \<lparr>deltas = [ex_DiffDelta_b], stats = ex_Stats_child, patchs = [''patch 1'']\<rparr> ! 0
     = '' a.txt | 2 +-''"
  by (simp add: ex_Diff_child_first_missing Deltas_def Stats_def ex_Stats_child_def
      ex_DiffDelta_b_def)


subsection \<open>C9: the diff of a root commit\<close>










subsection \<open>C8: DiffFromHash and Diff on the same commit\<close>

text \<open>
  Claim C8. When the hash resolves to a commit of the store, \<open>DiffFromHash\<close> calls
  \<open>Diff\<close> on a \<open>Commit\<close> in which only the handle is set (hash, author, message,
  summary and type are empty), and its result is that of \<open>Diff\<close> on the \<open>Commit\<close>
  that the walk builds from the same commit object; so the two \<open>Diff\<close> values have
  equal \<open>Deltas()\<close>, \<open>Patches()\<close> and \<open>Stats()\<close>.
\<close>

theorem DiffFromHash_agrees_with_Diff:
  assumes "NewOid (repo r) hash = Inr objectid"
    and "LookupCommit (repo r) objectid = Inr cc"
  shows "DiffFromHash r hash =
           Diff r \<lparr>commit = Some cc, Commit.Hash = [], Author = None, Message = [],
                   Summary = [], Type = []\<rparr> \<and>
         DiffFromHash r hash = Diff r (loadCommits_callback cc) \<and>
         (\<forall>d d'. fst (DiffFromHash r hash) = Ok d \<and> fst (Diff r (loadCommits_callback cc)) = Ok d'
            \<longrightarrow> Deltas d = Deltas d' \<and> Patches d = Patches d' \<and> Stats d = Stats d')"
proof -
  have 1: "DiffFromHash r hash =
           Diff r \<lparr>commit = Some cc, Commit.Hash = [], Author = None, Message = [],
                   Summary = [], Type = []\<rparr>"
    by (rule DiffFromHash_resolved [OF assms])
  have 2: "DiffFromHash r hash = Diff r (loadCommits_callback cc)"
    unfolding 1 by (rule Diff_commit_only) (simp add: loadCommits_callback_def)
  have 3: "Deltas d = Deltas d' \<and> Patches d = Patches d' \<and> Stats d = Stats d'"
    if "fst (DiffFromHash r hash) = Ok d \<and> fst (Diff r (loadCommits_callback cc)) = Ok d'"
    for d d'
  proof -
    from that have "Ok d = fst (DiffFromHash r hash)"
      and "fst (Diff r (loadCommits_callback cc)) = Ok d'"
      by (rule conjunct1 [THEN sym], rule conjunct2)
    then have "Ok d = Ok d'" unfolding 2 by (rule trans)
    then show ?thesis by simp
  qed
  from 1 2 3 show ?thesis by blast
qed

text \<open>The child commit of the example, by its hash and as the walk builds it.\<close>

theorem DiffFromHash_agrees_with_Diff_witness:
  "NewOid (repo (ex_repository [] ex_patches_ok)) ''c2c2c2c2c2c2c2c2c2c2c2c2c2c2c2c2c2c2c2c2''
     = Inr ex_id_child \<and>
   LookupCommit (repo (ex_repository [] ex_patches_ok)) ex_id_child = Inr ex_commit_child \<and>
   Commit.Hash (loadCommits_callback ex_commit_child) = ''c2c2c2c2c2c2c2c2c2c2c2c2c2c2c2c2c2c2c2c2'' \<and>
   DiffFromHash (ex_repository [] ex_patches_ok) ''c2c2c2c2c2c2c2c2c2c2c2c2c2c2c2c2c2c2c2c2''
     = Diff (ex_repository [] ex_patches_ok) (loadCommits_callback ex_commit_child) \<and>
   fst (DiffFromHash (ex_repository [] ex_patches_ok) ''c2c2c2c2c2c2c2c2c2c2c2c2c2c2c2c2c2c2c2c2'')
     = Ok \<lparr>deltas = [ex_DiffDelta_a, ex_DiffDelta_b], stats = ex_Stats_child,
           patchs = [''patch 0'', ''patch 1'']\<rparr>"
proof -
  have h3: "Commit.Hash (loadCommits_callback ex_commit_child)
      = ''c2c2c2c2c2c2c2c2c2c2c2c2c2c2c2c2c2c2c2c2''"
    by (simp add: loadCommits_callback_def ex_commit_child_def ex_id_child_def)
  from conjunct1 [OF conjunct2 [OF
    DiffFromHash_agrees_with_Diff [OF ex_NewOid_child ex_LookupCommit_child]]]
  have eq: "DiffFromHash (ex_repository [] ex_patches_ok) ''c2c2c2c2c2c2c2c2c2c2c2c2c2c2c2c2c2c2c2c2''
     = Diff (ex_repository [] ex_patches_ok) (loadCommits_callback ex_commit_child)" .
  have "fst (Diff (ex_repository [] ex_patches_ok) (loadCommits_callback ex_commit_child))
     = Ok \<lparr>deltas = [ex_DiffDelta_a, ex_DiffDelta_b], stats = ex_Stats_child,
           patchs = [''patch 0'', ''patch 1'']\<rparr>"
    using ex_Diff_child_ok by (simp add: ex_Commit_child_def)
  with eq h3 ex_NewOid_child ex_LookupCommit_child show ?thesis by simp
qed


subsection \<open>C7: the upstream of a branch\<close>

lemma upstream_ok_Branch:
  "upstream_ok (Branch name fullname hash upstream ahead behind clean remote) \<longleftrightarrow>
     (case upstream of None \<Rightarrow> True | Some u \<Rightarrow> \<not> remote \<and> isRemote u \<and> Upstream u = None)"
  by (auto simp: upstream_ok_def split: option.splits)

lemma loadBranches_callback_appends:
  assumes "loadBranches_callback branch bs = Ok bs'"
  shows "\<exists>b. bs' = bs @ [b] \<and> upstream_ok b"
proof -
  from assms obtain name where name: "br_Name branch = Inr name"
    by (cases "br_Name branch") (simp_all add: loadBranches_callback_def)
  define raw where "raw = (case br_Target branch of
                    Some t \<Rightarrow> Ok (Some t)
                  | None \<Rightarrow>
                      (case br_Resolve branch of
                         Inl err \<Rightarrow> Err err
                       | Inr ref \<Rightarrow> Ok (ref_Target ref)))"
  from assms name obtain rawOid where rawOid: "raw = Ok (Some rawOid)"
    unfolding loadBranches_callback_def raw_def [symmetric] Let_def
    by (cases raw) (simp_all split: option.splits)
  define up where "up = (if \<not> br_IsRemote branch then
                             (case br_Upstream branch of
                                Inl err \<Rightarrow> Ok None
                              | Inr None \<Rightarrow> Ok None
                              | Inr (Some us) \<Rightarrow>
                                  (case ref_Target us of
                                     None \<Rightarrow> Panic
                                   | Some t \<Rightarrow>
                                       Ok (Some (Branch [] (ref_Name us) (oid_String t) None
                                                   [] [] False True))))
                           else Ok None)"
  from assms name rawOid obtain upstream where upstream: "up = Ok upstream"
    and bs': "bs' = bs @ [Branch name (br_RefName branch) (oid_String rawOid) upstream [] []
                            False (br_IsRemote branch)]"
    unfolding loadBranches_callback_def raw_def [symmetric] up_def [symmetric] Let_def
    by (cases up) simp_all
  from upstream have "case upstream of None \<Rightarrow> True
      | Some u \<Rightarrow> \<not> br_IsRemote branch \<and> isRemote u \<and> Upstream u = None"
    unfolding up_def by (auto split: if_splits sum.splits option.splits)
  then have "upstream_ok (Branch name (br_RefName branch) (oid_String rawOid) upstream [] []
                            False (br_IsRemote branch))"
    by (simp add: upstream_ok_Branch)
  with bs' show ?thesis by blast
qed

lemma loadBranches_callback_upstream_ok:
  assumes "loadBranches_callback branch bs = Ok bs'" and "\<forall>b\<in>set bs. upstream_ok b"
  shows "\<forall>b\<in>set bs'. upstream_ok b"
  using loadBranches_callback_appends [OF assms(1)] assms(2) by auto

lemma ForEach_upstream_ok:
  assumes "ForEach branches end_err bs = Ok (bs', err)" and "\<forall>b\<in>set bs. upstream_ok b"
  shows "\<forall>b\<in>set bs'. upstream_ok b"
  using assms
proof (induction branches arbitrary: bs)
  case Nil
  then show ?case by simp
next
  case (Cons branch rest)
  show ?case
  proof (cases "loadBranches_callback branch bs")
    case (Ok bs1)
    with Cons.prems(1) have "ForEach rest end_err bs1 = Ok (bs', err)" by simp
    moreover have "\<forall>b\<in>set bs1. upstream_ok b"
      by (rule loadBranches_callback_upstream_ok [OF Ok Cons.prems(2)])
    ultimately show ?thesis by (rule Cons.IH)
  next
    case (Err e)
    with Cons.prems show ?thesis by simp
  next
    case Panic
    with Cons.prems show ?thesis by simp
  qed
qed

lemma loadCommits_Branches: "loadCommits r = Ok r' \<Longrightarrow> Branches r' = Branches r"
  by (auto simp: loadCommits_def split: sum.splits option.splits outcome.splits)

lemma loadBranches_upstream_ok:
  assumes "loadBranches r = Ok (r', err)"
    and "isl (NewBranchIterator (repo r)) \<longrightarrow> Branches r = []"
  shows "\<forall>b\<in>set (Branches r'). upstream_ok b"
proof (cases "NewBranchIterator (repo r)")
  case (Inl e)
  with assms show ?thesis by (simp add: loadBranches_def)
next
  case (Inr it)
  obtain branches end_err where it: "it = (branches, end_err)" by (cases it)
  from assms(1) Inr it obtain bs where "ForEach branches end_err [] = Ok (bs, err)"
    and "r' = r\<lparr>Branches := bs\<rparr>"
    by (auto simp: loadBranches_def split: outcome.splits)
  with ForEach_upstream_ok [of branches end_err "[]" bs err] show ?thesis by simp
qed

lemma Open_upstream_ok:
  assumes "Open OpenRepository path = Ok r"
  shows "\<forall>b\<in>set (Branches r). upstream_ok b"
proof -
  from assms obtain lr where lr: "OpenRepository path = Inr lr"
    by (cases "OpenRepository path") (simp_all add: Open_def)
  define r0 where "r0 = \<lparr>RepoID = [], Repository.Name = [], AbsPath = path, repo = lr,
                         Branches = [], Commits = [], Remotes = []\<rparr>"
  from assms lr obtain r1 where lb: "loadBranches r0 = Ok (r1, None)"
    and lc: "loadCommits r1 = Ok r"
    by (auto simp: Open_def r0_def split: outcome.splits option.splits)
  have "Branches r0 = []" by (simp add: r0_def)
  with loadBranches_upstream_ok [OF lb] have "\<forall>b\<in>set (Branches r1). upstream_ok b" by simp
  with loadCommits_Branches [OF lc] show ?thesis by simp
qed

text \<open>
  Claim C7. After \<open>loadBranches\<close> returns, every branch in \<open>Repository.Branches\<close>
  that is not remote and has an upstream has an upstream that is remote (and that has
  no upstream itself), and no remote branch has an upstream. \<open>loadBranches\<close> leaves
  \<open>Branches\<close> as it found it when the branch iterator cannot be created, which in
  \<open>Open\<close> is empty; the same holds of the repository that \<open>Open\<close> returns.
\<close>

theorem loadBranches_Upstream_invariant:
  "(loadBranches r = Ok (r', err) \<and> (isl (NewBranchIterator (repo r)) \<longrightarrow> Branches r = []) \<longrightarrow>
      (\<forall>b\<in>set (Branches r').
         (\<not> isRemote b \<longrightarrow> (\<forall>u. Upstream b = Some u \<longrightarrow> isRemote u \<and> Upstream u = None)) \<and>
         (isRemote b \<longrightarrow> Upstream b = None))) \<and>
   (Open OpenRepository path = Ok r'' \<longrightarrow>
      (\<forall>b\<in>set (Branches r'').
         (\<not> isRemote b \<longrightarrow> (\<forall>u. Upstream b = Some u \<longrightarrow> isRemote u \<and> Upstream u = None)) \<and>
         (isRemote b \<longrightarrow> Upstream b = None)))"
proof (intro conjI impI)
  assume "loadBranches r = Ok (r', err) \<and> (isl (NewBranchIterator (repo r)) \<longrightarrow> Branches r = [])"
  then have "\<forall>b\<in>set (Branches r'). upstream_ok b"
    using loadBranches_upstream_ok [of r r' err] by blast
  then show "\<forall>b\<in>set (Branches r').
         (\<not> isRemote b \<longrightarrow> (\<forall>u. Upstream b = Some u \<longrightarrow> isRemote u \<and> Upstream u = None)) \<and>
         (isRemote b \<longrightarrow> Upstream b = None)"
    by (auto simp: upstream_ok_def split: option.splits)
next
  assume "Open OpenRepository path = Ok r''"
  then have "\<forall>b\<in>set (Branches r''). upstream_ok b" by (rule Open_upstream_ok)
  then show "\<forall>b\<in>set (Branches r'').
         (\<not> isRemote b \<longrightarrow> (\<forall>u. Upstream b = Some u \<longrightarrow> isRemote u \<and> Upstream u = None)) \<and>
         (isRemote b \<longrightarrow> Upstream b = None)"
    by (auto simp: upstream_ok_def split: option.splits)
qed

lemmas load_defs = loadBranches_def loadBranches_callback_def loadCommits_def walk_start_def
  ex_Upstream_def ex_Branch_main_def ex_Branch_origin_main_def
  ex_branch_main_synced_def ex_branch_origin_main_synced_def

lemma ex_loadBranches:
  "loadBranches (ex_repository [ex_branch_main, ex_branch_origin_main] ex_patches_ok) =
     Ok ((ex_repository [ex_branch_main, ex_branch_origin_main] ex_patches_ok)
           \<lparr>Branches := [ex_Branch_main (Some (ex_Upstream ''c1c1c1c1c1c1c1c1c1c1c1c1c1c1c1c1c1c1c1c1'')),
                         ex_Branch_origin_main ''c1c1c1c1c1c1c1c1c1c1c1c1c1c1c1c1c1c1c1c1'']\<rparr>,
         None)"
  by (simp add: ex_defs load_defs)

lemma ex_loadCommits:
  "loadCommits ((ex_repository [ex_branch_main, ex_branch_origin_main] ex_patches_ok)
           \<lparr>Branches := [ex_Branch_main (Some (ex_Upstream ''c1c1c1c1c1c1c1c1c1c1c1c1c1c1c1c1c1c1c1c1'')),
                         ex_Branch_origin_main ''c1c1c1c1c1c1c1c1c1c1c1c1c1c1c1c1c1c1c1c1'']\<rparr>) =
     Ok ((ex_repository [ex_branch_main, ex_branch_origin_main] ex_patches_ok)
           \<lparr>Branches := [ex_Branch_main (Some (ex_Upstream ''c1c1c1c1c1c1c1c1c1c1c1c1c1c1c1c1c1c1c1c1'')),
                         ex_Branch_origin_main ''c1c1c1c1c1c1c1c1c1c1c1c1c1c1c1c1c1c1c1c1''],
            Commits := [ex_Commit_root]\<rparr>)"
  by (simp add: ex_defs load_defs)

lemma ex_Open:
  "Open (\<lambda>path. Inr (ex_lib [ex_branch_main, ex_branch_origin_main] ex_patches_ok)) ''/repo'' =
     Ok ((ex_repository [ex_branch_main, ex_branch_origin_main] ex_patches_ok)
           \<lparr>Branches := [ex_Branch_main (Some (ex_Upstream ''c1c1c1c1c1c1c1c1c1c1c1c1c1c1c1c1c1c1c1c1'')),
                         ex_Branch_origin_main ''c1c1c1c1c1c1c1c1c1c1c1c1c1c1c1c1c1c1c1c1''],
            Commits := [ex_Commit_root]\<rparr>)"
  using ex_loadBranches ex_loadCommits by (simp add: Open_def ex_repository_def)

text \<open>
  The example with \<open>main\<close> tracking \<open>origin/main\<close>: \<open>loadBranches\<close> and \<open>Open\<close>
  succeed, and the two branches are as stated.
\<close>

theorem loadBranches_Upstream_invariant_witness:
  "loadBranches (ex_repository [ex_branch_main, ex_branch_origin_main] ex_patches_ok) =
     Ok ((ex_repository [ex_branch_main, ex_branch_origin_main] ex_patches_ok)
           \<lparr>Branches := [ex_Branch_main (Some (ex_Upstream ''c1c1c1c1c1c1c1c1c1c1c1c1c1c1c1c1c1c1c1c1'')),
                         ex_Branch_origin_main ''c1c1c1c1c1c1c1c1c1c1c1c1c1c1c1c1c1c1c1c1'']\<rparr>,
         None) \<and>
   \<not> isl (NewBranchIterator (repo (ex_repository [ex_branch_main, ex_branch_origin_main]
                                     ex_patches_ok))) \<and>
   Open (\<lambda>path. Inr (ex_lib [ex_branch_main, ex_branch_origin_main] ex_patches_ok)) ''/repo'' =
     Ok ((ex_repository [ex_branch_main, ex_branch_origin_main] ex_patches_ok)
           \<lparr>Branches := [ex_Branch_main (Some (ex_Upstream ''c1c1c1c1c1c1c1c1c1c1c1c1c1c1c1c1c1c1c1c1'')),
                         ex_Branch_origin_main ''c1c1c1c1c1c1c1c1c1c1c1c1c1c1c1c1c1c1c1c1''],
            Commits := [ex_Commit_root]\<rparr>) \<and>
   \<not> isRemote (ex_Branch_main (Some (ex_Upstream ''c1c1c1c1c1c1c1c1c1c1c1c1c1c1c1c1c1c1c1c1''))) \<and>
   isRemote (ex_Upstream ''c1c1c1c1c1c1c1c1c1c1c1c1c1c1c1c1c1c1c1c1'') \<and>
   isRemote (ex_Branch_origin_main ''c1c1c1c1c1c1c1c1c1c1c1c1c1c1c1c1c1c1c1c1'') \<and>
   Upstream (ex_Branch_origin_main ''c1c1c1c1c1c1c1c1c1c1c1c1c1c1c1c1c1c1c1c1'') = None"
proof -
  have h2: "isl (NewBranchIterator (repo (ex_repository [ex_branch_main, ex_branch_origin_main]
                                     ex_patches_ok))) \<longrightarrow>
            Branches (ex_repository [ex_branch_main, ex_branch_origin_main] ex_patches_ok) = []"
    by (simp add: ex_repository_def)
  have h3: "\<not> isl (NewBranchIterator (repo (ex_repository [ex_branch_main, ex_branch_origin_main]
                                     ex_patches_ok)))"
    by (simp add: ex_repository_def ex_lib_def)
  from conjunct1 [OF loadBranches_Upstream_invariant, THEN mp, OF conjI, OF ex_loadBranches h2]
  have "isRemote (ex_Upstream ''c1c1c1c1c1c1c1c1c1c1c1c1c1c1c1c1c1c1c1c1'') \<and>
        Upstream (ex_Branch_origin_main ''c1c1c1c1c1c1c1c1c1c1c1c1c1c1c1c1c1c1c1c1'') = None"
    by (simp add: ex_Branch_main_def ex_Branch_origin_main_def)
  moreover
  from conjunct2 [OF loadBranches_Upstream_invariant, THEN mp, OF ex_Open]
  have "\<not> isRemote (ex_Branch_main (Some (ex_Upstream ''c1c1c1c1c1c1c1c1c1c1c1c1c1c1c1c1c1c1c1c1''))) \<and>
        isRemote (ex_Branch_origin_main ''c1c1c1c1c1c1c1c1c1c1c1c1c1c1c1c1c1c1c1c1'')"
    by (simp add: ex_Branch_main_def ex_Branch_origin_main_def ex_Upstream_def)
  ultimately show ?thesis
    using ex_loadBranches ex_Open h3 by simp
qed

subsection \<open>C1: the start of the walk\<close>

text \<open>What the lines that push the start of the walk do, case by case.\<close>

lemma walk_start_no_match:
  assumes "find_currentbranch (oid_String head_target) branches None = None"
    and "walk_Push lib head_target = None"
  shows "walk_start lib head_target branches = Ok head_target"
  using assms by (simp add: walk_start_def)

lemma walk_start_upstream:
  assumes "find_currentbranch (oid_String head_target) branches None = Some b"
    and "Upstream b = Some u" and "NewOid lib (Branch.Hash u) = Inr oid"
    and "walk_Push lib oid = None"
  shows "walk_start lib head_target branches = Ok oid"
  using assms by (simp add: walk_start_def)

lemma walk_start_missing_upstream:
  assumes "find_currentbranch (oid_String head_target) branches None = Some b"
    and "Upstream b = None"
  shows "walk_start lib head_target branches = Panic"
  using assms by (simp add: walk_start_def)

text \<open>
  Claim C1 says that \<open>loadCommits\<close> starts the walk from HEAD, without failing, when
  the branch at HEAD has no upstream. The code reads \<open>currentbranch.Upstream.Hash\<close>
  for whatever branch it found, and panics. Two repositories show it: one whose only
  branch \<open>main\<close>, at HEAD, has no upstream configured, where \<open>Open\<close> panics as well;
  and an up-to-date clone, where \<open>main\<close> has a resolved upstream but the loop goes on
  to \<open>origin/main\<close>, which has the same hash and no upstream.
\<close>

theorem loadCommits_panics_without_upstream:
  "loadBranches (ex_repository [ex_branch_main_untracked] ex_patches_ok) =
     Ok ((ex_repository [ex_branch_main_untracked] ex_patches_ok)
           \<lparr>Branches := [ex_Branch_main None]\<rparr>, None) \<and>
   loadCommits ((ex_repository [ex_branch_main_untracked] ex_patches_ok)
                  \<lparr>Branches := [ex_Branch_main None]\<rparr>) = Panic \<and>
   Open (\<lambda>path. Inr (ex_lib [ex_branch_main_untracked] ex_patches_ok)) ''/repo'' = Panic \<and>
   loadBranches (ex_repository [ex_branch_main_synced, ex_branch_origin_main_synced] ex_patches_ok) =
     Ok ((ex_repository [ex_branch_main_synced, ex_branch_origin_main_synced] ex_patches_ok)
           \<lparr>Branches := [ex_Branch_main (Some (ex_Upstream ''c2c2c2c2c2c2c2c2c2c2c2c2c2c2c2c2c2c2c2c2'')),
                         ex_Branch_origin_main ''c2c2c2c2c2c2c2c2c2c2c2c2c2c2c2c2c2c2c2c2'']\<rparr>,
         None) \<and>
   loadCommits ((ex_repository [ex_branch_main_synced, ex_branch_origin_main_synced] ex_patches_ok)
           \<lparr>Branches := [ex_Branch_main (Some (ex_Upstream ''c2c2c2c2c2c2c2c2c2c2c2c2c2c2c2c2c2c2c2c2'')),
                         ex_Branch_origin_main ''c2c2c2c2c2c2c2c2c2c2c2c2c2c2c2c2c2c2c2c2'']\<rparr>)
     = Panic"
  by (simp add: ex_defs load_defs Open_def)

subsection \<open>C3: the handles that Diff frees\<close>

text \<open>
  The loop adds only events of patch objects to the trace, and every tree or diff
  object that \<open>Diff\<close> obtains is freed by a deferred call, on every path.
\<close>

lemma Diff_loop_trace:
  "\<exists>ev. snd (Diff_loop diff n i ds ps tr) = tr @ ev \<and>
        set ev \<subseteq> {e. \<exists>j. e = Acquire (patch_handle j) \<or> e = Release (patch_handle j)}"
proof (induction "nat n - i" arbitrary: i ds ps tr)
  case 0
  then have "\<not> int i < n" by linarith
  then show ?case by (simp add: Diff_loop_done)
next
  case (Suc m)
  then have lt: "int i < n" by linarith
  from Suc.hyps(2) have m: "m = nat n - Suc i" by simp
  show ?case
  proof (cases "extract_at diff i")
    case None
    then have "extraction_fails diff i" by (simp add: extraction_fails_extract)
    from Diff_loop_fail_step [OF lt this] obtain ev0
      where ev0: "set ev0 \<subseteq> {Acquire (patch_handle i)}"
        and step: "Diff_loop diff n i ds ps tr = Diff_loop diff n (Suc i) ds ps (tr @ ev0)" by blast
    from Suc.hyps(1) [OF m, of ds ps "tr @ ev0"] obtain ev
      where "snd (Diff_loop diff n (Suc i) ds ps (tr @ ev0)) = (tr @ ev0) @ ev"
        and "set ev \<subseteq> {e. \<exists>j. e = Acquire (patch_handle j) \<or> e = Release (patch_handle j)}"
      by blast
    with ev0 step show ?thesis
      by (intro exI [of _ "ev0 @ ev"]) auto
  next
    case (Some p)
    obtain d t where p: "p = (d, t)" by (cases p)
    show ?thesis
    proof (cases "Free_error diff i")
      case None
      note step = Diff_loop_keep_step [OF lt Some [unfolded p] None, of ds ps tr]
      from Suc.hyps(1) [OF m, of "ds @ [d]" "ps @ [t]"
          "tr @ [Acquire (patch_handle i), Release (patch_handle i)]"] obtain ev
        where "snd (Diff_loop diff n (Suc i) (ds @ [d]) (ps @ [t])
                 (tr @ [Acquire (patch_handle i), Release (patch_handle i)]))
               = (tr @ [Acquire (patch_handle i), Release (patch_handle i)]) @ ev"
          and "set ev \<subseteq> {e. \<exists>j. e = Acquire (patch_handle j) \<or> e = Release (patch_handle j)}"
        by blast
      with step show ?thesis
        by (intro exI [of _ "[Acquire (patch_handle i), Release (patch_handle i)] @ ev"]) auto
    next
      case (Some err)
      from Diff_loop_free_step [OF lt \<open>extract_at diff i = Some p\<close> [unfolded p] Some, of ds ps tr]
      show ?thesis
        by (intro exI [of _ "[Acquire (patch_handle i)]"]) auto
    qed
  qed
qed

lemma Diff_body_deferred:
  assumes "Diff_body r c = (res, tr, deferred)"
  shows "\<forall>h. (\<forall>j. h \<noteq> patch_handle j) \<longrightarrow> (Acquire h \<in> set tr \<longleftrightarrow> h \<in> set deferred)"
proof (cases "commit c")
  case None
  with assms show ?thesis by (auto simp: Diff_body_def)
next
  case (Some cc)
  note cc = this
  show ?thesis
  proof (cases "lc_Tree cc")
    case (Inl e)
    with assms cc show ?thesis by (auto simp: Diff_body_def)
  next
    case (Inr cTree)
    note cTree = this
    show ?thesis
    proof (cases "parent_Tree cc")
      case Panic
      with assms cc cTree show ?thesis by (auto simp: Diff_body_def)
    next
      case (Err e)
      with assms cc cTree show ?thesis by (auto simp: Diff_body_def)
    next
      case (Ok pTree)
      note pTree = this
      define tr1 where "tr1 = Acquire cTree_handle # (if pTree = None then [] else [Acquire pTree_handle])"
      define df1 where "df1 = (if pTree = None then [] else [pTree_handle]) @ [cTree_handle]"
      have inv1: "\<forall>h. (\<forall>j. h \<noteq> patch_handle j) \<longrightarrow> (Acquire h \<in> set tr1 \<longleftrightarrow> h \<in> set df1)"
        by (auto simp: tr1_def df1_def)
      show ?thesis
      proof (cases "DefaultDiffOptions (repo r)")
        case (Some e)
        with assms cc cTree pTree inv1 show ?thesis
          by (simp add: Diff_body_def Let_def tr1_def df1_def)
      next
        case None
        note opt = this
        show ?thesis
        proof (cases "DiffTreeToTree (repo r) pTree cTree")
          case (Inl e)
          with assms cc cTree pTree opt inv1 show ?thesis
            by (simp add: Diff_body_def Let_def tr1_def df1_def)
        next
          case (Inr diff)
          note diff = this
          define tr2 where "tr2 = tr1 @ [Acquire diff_handle]"
          define df2 where "df2 = diff_handle # df1"
          have inv2: "\<forall>h. (\<forall>j. h \<noteq> patch_handle j) \<longrightarrow> (Acquire h \<in> set tr2 \<longleftrightarrow> h \<in> set df2)"
            using inv1 by (auto simp: tr2_def df2_def)
          have loop: "\<forall>h. (\<forall>j. h \<noteq> patch_handle j) \<longrightarrow>
                  (Acquire h \<in> set (snd (Diff_loop diff n 0 [] [] tr2)) \<longleftrightarrow> h \<in> set df2)" for n
          proof -
            from Diff_loop_trace [of diff n 0 "[]" "[]" tr2] obtain ev
              where "snd (Diff_loop diff n 0 [] [] tr2) = tr2 @ ev"
                and "set ev \<subseteq> {e. \<exists>j. e = Acquire (patch_handle j) \<or> e = Release (patch_handle j)}"
              by blast
            with inv2 show ?thesis by auto
          qed
          show ?thesis
          proof (cases "d_Stats diff")
            case (Inl e)
            with assms cc cTree pTree opt diff inv2 show ?thesis
              by (simp add: Diff_body_def Let_def tr1_def df1_def tr2_def df2_def)
          next
            case (Inr st)
            note st = this
            show ?thesis
            proof (cases st)
              case (Inl e)
              with assms cc cTree pTree opt diff st inv2 show ?thesis
                by (simp add: Diff_body_def Let_def tr1_def df1_def tr2_def df2_def)
            next
              case (Inr statsText)
              note statsText = this
              show ?thesis
              proof (cases "d_NumDeltas diff")
                case (Inl e)
                with assms cc cTree pTree opt diff st statsText inv2 show ?thesis
                  by (simp add: Diff_body_def Let_def tr1_def df1_def tr2_def df2_def)
              next
                case (Inr n)
                obtain lres tr3 where l: "Diff_loop diff n 0 [] [] tr2 = (lres, tr3)"
                  by (cases "Diff_loop diff n 0 [] [] tr2") auto
                from assms cc cTree pTree opt diff st statsText Inr l
                have "tr = tr3 \<and> deferred = df2"
                  by (auto simp: Diff_body_def Let_def tr1_def df1_def tr2_def df2_def
                      split: outcome.splits prod.splits)
                with loop [of n] l show ?thesis by simp
              qed
            qed
          qed
        qed
      qed
    qed
  qed
qed

lemma Diff_frees_trees_and_diff:
  assumes "Acquire h \<in> set (snd (Diff r c))" and "\<forall>j. h \<noteq> patch_handle j"
  shows "Release h \<in> set (snd (Diff r c))"
proof -
  obtain res tr deferred where body: "Diff_body r c = (res, tr, deferred)"
    by (cases "Diff_body r c") auto
  then have run: "snd (Diff r c) = tr @ map Release deferred" by (simp add: Diff_def)
  from assms(1) have "Acquire h \<in> set tr" by (auto simp: run)
  with Diff_body_deferred [OF body] assms(2) have "h \<in> set deferred" by blast
  then show ?thesis by (simp add: run)
qed

text \<open>
  Claim C3 says that every handle obtained in \<open>Diff\<close> is freed on every path,
  skipped iterations included. On the root commit read with a patch whose text cannot
  be rendered, \<open>Diff\<close> returns without error, both trees and the diff object are
  freed, and the patch of index 0 is obtained and never freed.
\<close>

theorem Diff_leaks_patch_of_skipped_delta:
  "Diff (ex_repository [] ex_patches_first_unprintable) ex_Commit_root =
     (Ok \<lparr>deltas = [], stats = ex_Stats_root, patchs = []\<rparr>,
      [Acquire cTree_handle, Acquire diff_handle, Acquire (patch_handle 0),
       Release diff_handle, Release cTree_handle])"
  by (simp add: ex_defs run_defs)

end
